theory Spec2Isabelle
  imports Main "HOL-Library.Word"
begin

text \<open>
  The hash support routines of AuthHashCalc (\<open>Source/hash.cpp\<close>): the padding helper
  \<open>HashpAddPad\<close>, the header inspector \<open>HashpGetSizeOfHeaders\<close>, the exclusion range
  calculator \<open>HashpGetExcludeRange\<close>, and the two hashers \<open>CalculateAuthenticodeHash\<close>
  and \<open>CalculateFirstPageHash\<close>. The first part of the theory is the code, function
  by function; the second part states what the specification says of it and proves it.
\<close>

section \<open>Machine types and status codes\<close>

type_synonym u8 = "8 word"
type_synonym u16 = "16 word"
type_synonym u32 = "32 word"

text \<open>
  \<open>NTSTATUS\<close> is a signed 32-bit value; \<open>NT_SUCCESS(s)\<close> is \<open>s >= 0\<close>.
\<close>

type_synonym ntstatus = "32 word"

definition NT_SUCCESS :: "ntstatus \<Rightarrow> bool" where
  "NT_SUCCESS s \<longleftrightarrow> 0 \<le> sint s"

definition STATUS_SUCCESS :: ntstatus where
  "STATUS_SUCCESS = 0"

definition STATUS_UNSUCCESSFUL :: ntstatus where
  "STATUS_UNSUCCESSFUL = 0xC0000001"

definition DEFAULT_ALIGN_BYTES :: u32 where
  "DEFAULT_ALIGN_BYTES = 8"

section \<open>The hash engine context\<close>

text \<open>
  Modelled from the spec: the CNG primitive (\<open>BCryptHashData\<close>, \<open>BCryptFinishHash\<close>) and
  the declaration of \<open>CNG_CTX\<close> are not part of the source file. The spec treats the
  primitive as an opaque streaming hash engine, fed incrementally and finalized to a
  digest. Its behaviour is taken as two parameters carried by the context:
  \<^item> \<open>HashAlg\<close>, the digest function of the algorithm the context was opened with;
  \<^item> \<open>Outcome\<close>, the status the primitive returns on its \<open>n\<close>-th call on this context.
  The context records every call made on it (\<open>trace\<close>), where the data came from
  (the mapped image at an offset, or the local zero buffer of \<open>HashpAddPad\<close>), and the
  bytes the engine took in (\<open>absorbed\<close>: the data of the calls that succeeded).
  \<open>Hash\<close> is the digest buffer \<open>HashContext->Hash\<close>.
\<close>

datatype pointer = ImagePtr nat | PadPtr

datatype hash_event = HashData pointer "u8 list" | FinishHash

record cng_ctx =
  HashAlg :: "u8 list \<Rightarrow> u8 list"
  Outcome :: "nat \<Rightarrow> ntstatus"
  trace :: "hash_event list"
  absorbed :: "u8 list"
  Hash :: "u8 list"

definition BCryptHashData :: "cng_ctx \<Rightarrow> pointer \<Rightarrow> u8 list \<Rightarrow> ntstatus \<times> cng_ctx" where
  "BCryptHashData ctx src bytes =
     (let st = Outcome ctx (length (trace ctx))
      in (st, ctx\<lparr>trace := trace ctx @ [HashData src bytes],
                   absorbed := (if NT_SUCCESS st then absorbed ctx @ bytes else absorbed ctx)\<rparr>))"

definition BCryptFinishHash :: "cng_ctx \<Rightarrow> ntstatus \<times> cng_ctx" where
  "BCryptFinishHash ctx =
     (let st = Outcome ctx (length (trace ctx))
      in (st, ctx\<lparr>trace := trace ctx @ [FinishHash],
                   Hash := (if NT_SUCCESS st then HashAlg ctx (absorbed ctx) else Hash ctx)\<rparr>))"

section \<open>HashpAddPad\<close>

text \<open>
  The local buffer \<open>UCHAR pbInput[DEFAULT_ALIGN_BYTES] = { 0, ... }\<close>. The data of a
  call on \<open>cb\<close> bytes of it is \<open>take cb pbInput\<close>; the code never asks for more than the
  eight bytes it holds (the loop asks for eight, and what is left after the loop is
  below eight).
\<close>

definition pbInput :: "u8 list" where
  "pbInput = [0, 0, 0, 0, 0, 0, 0, 0]"

text \<open>
  The \<open>do { ... } while (i)\<close> loop: the body runs before the test, so entered with
  \<open>i = 0\<close> the counter would wrap; the measure below covers that case too.
\<close>

function HashpAddPad_loop :: "cng_ctx \<Rightarrow> u32 \<Rightarrow> u32 \<Rightarrow> ntstatus \<times> u32 \<times> cng_ctx" where
  "HashpAddPad_loop ctx cbPad i =
     (case BCryptHashData ctx PadPtr (take (unat DEFAULT_ALIGN_BYTES) pbInput) of
        (ntStatus, ctx1) \<Rightarrow>
          if i - 1 \<noteq> 0 then HashpAddPad_loop ctx1 (cbPad - DEFAULT_ALIGN_BYTES) (i - 1)
          else (ntStatus, cbPad - DEFAULT_ALIGN_BYTES, ctx1))"
  by pat_completeness auto
termination
proof (relation "measure (\<lambda>(ctx, cbPad, i). unat (i - 1))")
  fix ctx y :: cng_ctx and cbPad i :: u32
  assume "i - 1 \<noteq> 0"
  then have "unat (i - 1 - 1) = unat (i - 1) - 1" and "0 < unat (i - 1)"
    by (simp_all only: unat_minus_one unat_gt_0 not_False_eq_True)
  then show "((y, cbPad - DEFAULT_ALIGN_BYTES, i - 1), ctx, cbPad, i)
      \<in> measure (\<lambda>(ctx, cbPad, i). unat (i - 1))"
    by simp
qed simp

declare HashpAddPad_loop.simps [simp del]

definition HashpAddPad :: "u32 \<Rightarrow> cng_ctx \<Rightarrow> ntstatus \<times> cng_ctx" where
  "HashpAddPad PaddingSize HashContext =
     (case (if PaddingSize \<ge> DEFAULT_ALIGN_BYTES
            then HashpAddPad_loop HashContext PaddingSize (drop_bit 3 PaddingSize)
            else (STATUS_SUCCESS, PaddingSize, HashContext)) of
        (ntStatus, cbPad, ctx) \<Rightarrow>
          if cbPad \<noteq> 0 then BCryptHashData ctx PadPtr (take (unat cbPad) pbInput)
          else (ntStatus, ctx))"

section \<open>The mapped image and its headers\<close>

text \<open>
  Modelled from the spec: \<open>FILE_VIEW_INFO\<close> and the \<open>IMAGE_VERIFY_*\<close> codes are declared
  in a header that is not part of the source file, and the PE structures come from the
  platform headers. Each structure is a record holding the fields the code reads.
  \<^item> \<open>ViewBase\<close> is the readable memory of the mapping, byte by byte; a read that leaves it
    is an access fault.
  \<^item> The headers the code reads through typed pointers (\<open>PIMAGE_DOS_HEADER\<close>,
    \<open>PIMAGE_NT_HEADERS\<close>, \<open>PIMAGE_OPTIONAL_HEADER32/64\<close>, \<open>IMAGE_FIRST_SECTION\<close>) are
    kept as parsed records beside the bytes. The two optional header layouts place the
    data directories at different offsets, so what \<open>opt64\<close> and \<open>opt32\<close> read are two
    fields. The section table is an array in memory, indexed without a bound.
  \<^item> \<open>ExcludeData.SecurityDirectory\<close> is a pointer into the read-only mapping in the
    code; the record holds the entry it points to.
\<close>

datatype image_verify =
    IMAGE_VERIFY_OK
  | IMAGE_VERIFY_BAD_NTHEADERS
  | IMAGE_VERIFY_BAD_OPTIONAL_HEADER_MAGIC
  | IMAGE_VERIFY_BAD_SECTION_COUNT
  | IMAGE_VERIFY_BAD_SECURITY_DIRECTORY_VA
  | IMAGE_VERIFY_BAD_SECURITY_DIRECTORY_SIZE
  | IMAGE_VERIFY_EXCEPTION_IN_PROCESS

record image_data_directory =
  VirtualAddress :: u32
  Size :: u32

record image_section_header =
  PointerToRawData :: u32
  SizeOfRawData :: u32

record image_optional_header =
  SizeOfHeaders :: u32
  DataDirectory_SECURITY :: image_data_directory

record image_nt_headers =
  Magic :: u16
  NumberOfSections :: u16
  OptionalHeader64 :: image_optional_header
  OptionalHeader32 :: image_optional_header
  IMAGE_FIRST_SECTION :: "nat \<Rightarrow> image_section_header"

record exclude_data =
  ChecksumOffset :: u32
  SecurityOffset :: u32
  SecurityDirectory :: image_data_directory

record file_view_info =
  ViewBase :: "u8 list"
  FileSize_LowPart :: u32
  e_lfanew :: u32
  NtHeaders :: image_nt_headers
  ExcludeData :: exclude_data
  LastError :: image_verify

definition IMAGE_NT_OPTIONAL_HDR32_MAGIC :: u16 where
  "IMAGE_NT_OPTIONAL_HDR32_MAGIC = 0x10b"

definition IMAGE_NT_OPTIONAL_HDR64_MAGIC :: u16 where
  "IMAGE_NT_OPTIONAL_HDR64_MAGIC = 0x20b"

text \<open>
  Field offsets of the platform's PE layouts: the optional header starts 24 bytes into
  \<open>IMAGE_NT_HEADERS\<close>, \<open>CheckSum\<close> is 64 bytes into either optional header, and the
  security entry is the fifth 8-byte data directory, the directories starting 96 bytes
  into the 32-bit optional header and 112 bytes into the 64-bit one.
\<close>

definition CheckSum_OFFSET64 :: u32 where
  "CheckSum_OFFSET64 = 88"

definition Security_OFFSET64 :: u32 where
  "Security_OFFSET64 = 168"

definition CheckSum_OFFSET32 :: u32 where
  "CheckSum_OFFSET32 = 88"

definition Security_OFFSET32 :: u32 where
  "Security_OFFSET32 = 152"

text \<open>\<open>RTL_FIELD_SIZE(IMAGE_OPTIONAL_HEADER, CheckSum)\<close> and \<open>sizeof(IMAGE_DATA_DIRECTORY)\<close>.\<close>

definition CheckSum_SIZE :: u32 where
  "CheckSum_SIZE = 4"

definition IMAGE_DATA_DIRECTORY_SIZE :: u32 where
  "IMAGE_DATA_DIRECTORY_SIZE = 8"

section \<open>HashpGetSizeOfHeaders\<close>

definition HashpGetSizeOfHeaders :: "image_nt_headers \<Rightarrow> u32" where
  "HashpGetSizeOfHeaders nt =
     (if Magic nt = IMAGE_NT_OPTIONAL_HDR64_MAGIC then SizeOfHeaders (OptionalHeader64 nt)
      else if Magic nt = IMAGE_NT_OPTIONAL_HDR32_MAGIC then SizeOfHeaders (OptionalHeader32 nt)
      else 0)"

section \<open>HashpGetExcludeRange\<close>

text \<open>
  The \<open>switch\<close> on the optional header magic: the checksum offset, the offset of the
  security directory entry and the entry itself, or nothing for an unrecognized magic.
  \<open>e_lfanew\<close> is a signed 32-bit field added to an unsigned 32-bit offset: the sum is
  the unsigned 32-bit sum.
\<close>

definition select_layout :: "file_view_info \<Rightarrow> (u32 \<times> u32 \<times> image_data_directory) option" where
  "select_layout v =
     (if Magic (NtHeaders v) = IMAGE_NT_OPTIONAL_HDR64_MAGIC then
        Some (e_lfanew v + CheckSum_OFFSET64, e_lfanew v + Security_OFFSET64,
              DataDirectory_SECURITY (OptionalHeader64 (NtHeaders v)))
      else if Magic (NtHeaders v) = IMAGE_NT_OPTIONAL_HDR32_MAGIC then
        Some (e_lfanew v + CheckSum_OFFSET32, e_lfanew v + Security_OFFSET32,
              DataDirectory_SECURITY (OptionalHeader32 (NtHeaders v)))
      else None)"

text \<open>
  The checks made when the directory's \<open>VirtualAddress\<close> is not zero: the first one that
  fails gives the error the code stores before it returns \<open>FALSE\<close>.
\<close>

definition check_directory :: "file_view_info \<Rightarrow> image_data_directory \<Rightarrow> image_verify option" where
  "check_directory v dataDirectory =
     (let numberOfSections = (ucast (NumberOfSections (NtHeaders v)) :: u32)
      in if numberOfSections = 0 then Some IMAGE_VERIFY_BAD_SECTION_COUNT
         else
           let sectionTableEntry = IMAGE_FIRST_SECTION (NtHeaders v);
               c = PointerToRawData (sectionTableEntry (unat (numberOfSections - 1))) +
                   SizeOfRawData (sectionTableEntry (unat (numberOfSections - 1)))
           in if VirtualAddress dataDirectory < c then
                Some IMAGE_VERIFY_BAD_SECURITY_DIRECTORY_VA
              else if VirtualAddress dataDirectory \<ge> FileSize_LowPart v then
                Some IMAGE_VERIFY_BAD_SECURITY_DIRECTORY_VA
              else
                let c = FileSize_LowPart v - VirtualAddress dataDirectory
                in if Size dataDirectory > c then
                     Some IMAGE_VERIFY_BAD_SECURITY_DIRECTORY_SIZE
                   else None)"

definition HashpGetExcludeRange :: "file_view_info \<Rightarrow> bool \<times> file_view_info" where
  "HashpGetExcludeRange v =
     (case select_layout v of
        None \<Rightarrow> (False, v\<lparr>LastError := IMAGE_VERIFY_BAD_OPTIONAL_HEADER_MAGIC\<rparr>)
      | Some (checksumOffset, securityOffset, dataDirectory) \<Rightarrow>
          (case (if VirtualAddress dataDirectory \<noteq> 0 then check_directory v dataDirectory
                 else None) of
             Some e \<Rightarrow> (False, v\<lparr>LastError := e\<rparr>)
           | None \<Rightarrow>
               (True, v\<lparr>ExcludeData := \<lparr>ChecksumOffset = checksumOffset,
                                          SecurityOffset = securityOffset,
                                          SecurityDirectory = dataDirectory\<rparr>\<rparr>)))"

section \<open>Reading the image\<close>

text \<open>
  \<open>BCryptHashData\<close> on \<open>cb\<close> bytes at \<open>RtlOffsetToPointer(imageBase, off)\<close>: the bytes are
  read from the mapping, and a read that leaves it faults (the \<open>__except\<close> branch of the
  caller). Nothing is read when \<open>cb\<close> is zero. A call that faults leaves no record in the
  context.
\<close>

definition read_image :: "u8 list \<Rightarrow> nat \<Rightarrow> nat \<Rightarrow> u8 list option" where
  "read_image img off cb =
     (if cb = 0 then Some []
      else if off + cb \<le> length img then Some (take cb (drop off img))
      else None)"

definition hash_image :: "u8 list \<Rightarrow> cng_ctx \<Rightarrow> nat \<Rightarrow> nat \<Rightarrow> (ntstatus \<times> cng_ctx) option" where
  "hash_image img ctx off cb = map_option (BCryptHashData ctx (ImagePtr off)) (read_image img off cb)"

definition raised :: "file_view_info \<Rightarrow> cng_ctx \<Rightarrow> bool \<times> file_view_info \<times> cng_ctx" where
  "raised v ctx = (False, v\<lparr>LastError := IMAGE_VERIFY_EXCEPTION_IN_PROCESS\<rparr>, ctx)"

section \<open>CalculateAuthenticodeHash\<close>

text \<open>
  The three nested \<open>if (NT_SUCCESS(ntStatus))\<close> blocks. A block whose test fails falls
  through to the final \<open>return NT_SUCCESS(ntStatus)\<close>, which is then \<open>FALSE\<close>. The 32-bit
  offsets and lengths are those of the code: \<open>+\<close>, \<open>-\<close> and \<open>mod\<close> on \<open>u32\<close>. When no
  padding is needed nothing is tested before the finalization; the status passed on in
  that case is the success of the third update.
\<close>

definition CalculateAuthenticodeHash ::
  "file_view_info \<Rightarrow> cng_ctx \<Rightarrow> bool \<times> file_view_info \<times> cng_ctx" where
  "CalculateAuthenticodeHash v HashContext =
     (let imageBase = ViewBase v;
          checksumOffset = ChecksumOffset (ExcludeData v);
          securityOffset = SecurityOffset (ExcludeData v);
          dataDirectory = SecurityDirectory (ExcludeData v)
      in (case hash_image imageBase HashContext 0 (unat checksumOffset) of
            None \<Rightarrow> raised v HashContext
          | Some (ntStatus1, ctx1) \<Rightarrow>
             (if \<not> NT_SUCCESS ntStatus1 then (False, v, ctx1)
              else
               (let fileOffset2 = checksumOffset + CheckSum_SIZE;
                    cbInput2 = securityOffset - fileOffset2
                in (case hash_image imageBase ctx1 (unat fileOffset2) (unat cbInput2) of
                      None \<Rightarrow> raised v ctx1
                    | Some (ntStatus2, ctx2) \<Rightarrow>
                       (if \<not> NT_SUCCESS ntStatus2 then (False, v, ctx2)
                        else
                         (let fileOffset3 = securityOffset + IMAGE_DATA_DIRECTORY_SIZE;
                              cbInput3 = (if VirtualAddress dataDirectory = 0
                                          then FileSize_LowPart v - fileOffset3
                                          else VirtualAddress dataDirectory - fileOffset3)
                          in (case hash_image imageBase ctx2 (unat fileOffset3) (unat cbInput3) of
                                None \<Rightarrow> raised v ctx2
                              | Some (ntStatus3, ctx3) \<Rightarrow>
                                 (if \<not> NT_SUCCESS ntStatus3 then (False, v, ctx3)
                                  else
                                   (let sz = cbInput3 mod DEFAULT_ALIGN_BYTES
                                    in (case (if sz \<noteq> 0
                                              then HashpAddPad (DEFAULT_ALIGN_BYTES - sz) ctx3
                                              else (ntStatus3, ctx3)) of
                                          (ntStatus4, ctx4) \<Rightarrow>
                                            (if \<not> NT_SUCCESS ntStatus4 then (False, v, ctx4)
                                             else
                                              (case BCryptFinishHash ctx4 of
                                                 (ntStatus5, ctx5) \<Rightarrow>
                                                   (NT_SUCCESS ntStatus5, v, ctx5))))))))))))))"

section \<open>CalculateFirstPageHash\<close>

text \<open>
  What leaves the \<open>while\<close> loop: the offset it stopped at, a \<open>return FALSE\<close> from inside
  it, or an access fault. The offset is a 32-bit counter and the skips can wrap it, so
  the loop need not end for every input: not returning is \<open>None\<close>.
\<close>

datatype loop_exit = Stopped u32 | Returned | Faulted

partial_function (option) first_page_loop ::
  "u32 \<Rightarrow> file_view_info \<Rightarrow> u32 \<Rightarrow> cng_ctx \<Rightarrow> u32 \<Rightarrow> (loop_exit \<times> cng_ctx) option" where
  "first_page_loop PageSize v sizeOfHeaders ctx offset =
     (if offset < PageSize then
        (let offset1 =
               (if offset = ChecksumOffset (ExcludeData v) then offset + CheckSum_SIZE
                else if offset = SecurityOffset (ExcludeData v)
                     then offset + IMAGE_DATA_DIRECTORY_SIZE
                     else offset)
         in if offset1 \<ge> sizeOfHeaders then Some (Stopped offset1, ctx)
            else
              (case hash_image (ViewBase v) ctx (unat offset1) 1 of
                 None \<Rightarrow> Some (Faulted, ctx)
               | Some (ntStatus, ctx1) \<Rightarrow>
                   if \<not> NT_SUCCESS ntStatus then Some (Returned, ctx1)
                   else first_page_loop PageSize v sizeOfHeaders ctx1 (offset1 + 1)))
      else Some (Stopped offset, ctx))"

declare first_page_loop.simps [code]

text \<open>
  After the loop: the padding when the offset is below the page size, with a
  \<open>return FALSE\<close> when \<open>HashpAddPad\<close> reports a failure, then the finalization, whose
  status is the result. Without padding nothing is tested before the finalization.
\<close>

definition CalculateFirstPageHash ::
  "u32 \<Rightarrow> file_view_info \<Rightarrow> cng_ctx \<Rightarrow> (bool \<times> file_view_info \<times> cng_ctx) option" where
  "CalculateFirstPageHash PageSize v HashContext =
     (let sizeOfHeaders = HashpGetSizeOfHeaders (NtHeaders v)
      in case first_page_loop PageSize v sizeOfHeaders HashContext 0 of
           None \<Rightarrow> None
         | Some (Faulted, ctx1) \<Rightarrow> Some (raised v ctx1)
         | Some (Returned, ctx1) \<Rightarrow> Some (False, v, ctx1)
         | Some (Stopped offset, ctx1) \<Rightarrow>
             (case (if offset < PageSize then HashpAddPad (PageSize - offset) ctx1
                    else (STATUS_SUCCESS, ctx1)) of
                (ntStatus, ctx2) \<Rightarrow>
                  (if \<not> NT_SUCCESS ntStatus then Some (False, v, ctx2)
                   else
                    (case BCryptFinishHash ctx2 of
                       (ntStatus3, ctx3) \<Rightarrow> Some (NT_SUCCESS ntStatus3, v, ctx3)))))"

section \<open>Notions used to state the properties\<close>

text \<open>
  The definitions of this section follow the wording of the specification, not the
  code; the theorems below compare the two.

  The calls \<open>padWithZeros(n)\<close> makes according to the specification: \<open>n div 8\<close> chunks
  of eight zero bytes, then one chunk of \<open>n mod 8\<close> zero bytes when that is not zero.
  \<open>fed_bytes\<close> is the byte sequence a list of calls feeds to the primitive, and
  \<open>always_succeeds\<close> says that the primitive fails on no call.
\<close>

definition pad_chunks :: "nat \<Rightarrow> hash_event list" where
  "pad_chunks n =
     replicate (n div 8) (HashData PadPtr (replicate 8 0)) @
     (if n mod 8 \<noteq> 0 then [HashData PadPtr (replicate (n mod 8) 0)] else [])"

definition fed_bytes :: "hash_event list \<Rightarrow> u8 list" where
  "fed_bytes es = concat (map (\<lambda>e. case e of HashData p bs \<Rightarrow> bs | FinishHash \<Rightarrow> []) es)"

definition always_succeeds :: "cng_ctx \<Rightarrow> bool" where
  "always_succeeds ctx \<longleftrightarrow> (\<forall>n. NT_SUCCESS (Outcome ctx n))"

text \<open>
  The Full-Image Hasher of the specification: \<open>span img a b\<close> is the bytes of the image
  at the offsets \<open>[a, b)\<close>, \<open>cert_end\<close> is the specification's \<open>certEnd\<close>, and
  \<open>authenticode_feed\<close> is the sequence of updates of section 4.4, in plain arithmetic.
\<close>

definition span :: "u8 list \<Rightarrow> nat \<Rightarrow> nat \<Rightarrow> u8 list" where
  "span img a b = take (b - a) (drop a img)"

definition cert_end :: "file_view_info \<Rightarrow> nat" where
  "cert_end v =
     (if VirtualAddress (SecurityDirectory (ExcludeData v)) = 0
      then unat (FileSize_LowPart v)
      else unat (VirtualAddress (SecurityDirectory (ExcludeData v))))"

definition authenticode_feed :: "file_view_info \<Rightarrow> hash_event list" where
  "authenticode_feed v =
     (let checksumOffset = unat (ChecksumOffset (ExcludeData v));
          securityOffset = unat (SecurityOffset (ExcludeData v));
          certStart = securityOffset + 8;
          certEnd = cert_end v;
          consumed = certEnd - certStart
      in [HashData (ImagePtr 0) (span (ViewBase v) 0 checksumOffset),
          HashData (ImagePtr (checksumOffset + 4))
            (span (ViewBase v) (checksumOffset + 4) securityOffset),
          HashData (ImagePtr certStart) (span (ViewBase v) certStart certEnd)] @
         (if consumed mod 8 \<noteq> 0
          then [HashData PadPtr (replicate (8 - consumed mod 8) 0)] else []))"

text \<open>
  The offsets two views of a file may differ at when only the checksum field, the
  security directory entry and the certificate blob were altered.
\<close>

definition excluded :: "file_view_info \<Rightarrow> nat \<Rightarrow> bool" where
  "excluded v i \<longleftrightarrow>
     (unat (ChecksumOffset (ExcludeData v)) \<le> i \<and>
        i < unat (ChecksumOffset (ExcludeData v)) + 4) \<or>
     (unat (SecurityOffset (ExcludeData v)) \<le> i \<and>
        i < unat (SecurityOffset (ExcludeData v)) + 8) \<or>
     (VirtualAddress (SecurityDirectory (ExcludeData v)) \<noteq> 0 \<and>
        unat (VirtualAddress (SecurityDirectory (ExcludeData v))) \<le> i \<and>
        i < unat (FileSize_LowPart v))"

definition agree_outside_excluded :: "file_view_info \<Rightarrow> file_view_info \<Rightarrow> bool" where
  "agree_outside_excluded v1 v2 \<longleftrightarrow>
     (\<forall>i < length (ViewBase v1). \<not> excluded v1 i \<longrightarrow> ViewBase v1 ! i = ViewBase v2 ! i)"

text \<open>
  The NT headers (\<open>IMAGE_NT_HEADERS64\<close> is 264 bytes long, \<open>IMAGE_NT_HEADERS32\<close> 248)
  lie inside the file.
\<close>

definition nt_headers_in_file :: "file_view_info \<Rightarrow> bool" where
  "nt_headers_in_file v \<longleftrightarrow>
     unat (e_lfanew v) +
       (if Magic (NtHeaders v) = IMAGE_NT_OPTIONAL_HDR64_MAGIC then 264 else 248)
     \<le> unat (FileSize_LowPart v)"

text \<open>
  The First-Page Hasher of the specification, in plain arithmetic: the walk of section
  4.5 from the offset \<open>off\<close>, giving the offsets whose byte is hashed, in order, and the
  offset the walk stops at; then the updates it makes, one byte at a time, followed by
  the padding up to the page size.
\<close>

function page_walk :: "nat \<Rightarrow> nat \<Rightarrow> nat \<Rightarrow> nat \<Rightarrow> nat \<Rightarrow> nat list \<times> nat" where
  "page_walk pageSize checksumOffset securityOffset sizeOfHeaders off =
     (if off < pageSize then
        (let off1 = (if off = checksumOffset then off + 4
                     else if off = securityOffset then off + 8 else off)
         in if off1 \<ge> sizeOfHeaders then ([], off1)
            else (case page_walk pageSize checksumOffset securityOffset sizeOfHeaders (off1 + 1) of
                    (hashed, final) \<Rightarrow> (off1 # hashed, final)))
      else ([], off))"
  by pat_completeness auto

termination
  by (relation "measure (\<lambda>(pageSize, checksumOffset, securityOffset, sizeOfHeaders, off).
        pageSize - off)") auto

declare page_walk.simps [simp del]

definition first_page_walk :: "u32 \<Rightarrow> file_view_info \<Rightarrow> nat list \<times> nat" where
  "first_page_walk PageSize v =
     page_walk (unat PageSize) (unat (ChecksumOffset (ExcludeData v)))
       (unat (SecurityOffset (ExcludeData v))) (unat (HashpGetSizeOfHeaders (NtHeaders v))) 0"

definition first_page_feed :: "u32 \<Rightarrow> file_view_info \<Rightarrow> hash_event list" where
  "first_page_feed PageSize v =
     (case first_page_walk PageSize v of
        (hashed, final) \<Rightarrow>
          map (\<lambda>off. HashData (ImagePtr off) [ViewBase v ! off]) hashed @
          (if final < unat PageSize then pad_chunks (unat PageSize - final) else []))"

text \<open>The image offsets a list of calls reads, in order.\<close>

fun read_offsets :: "hash_event list \<Rightarrow> nat list" where
  "read_offsets [] = []"
| "read_offsets (HashData (ImagePtr off) bs # es) = [off ..< off + length bs] @ read_offsets es"
| "read_offsets (e # es) = read_offsets es"

section \<open>Example inputs\<close>

text \<open>
  A context whose primitive never fails and whose digest function is the identity, so
  that the digest shows the bytes taken in; and one whose first call fails.
\<close>

definition example_ctx :: "cng_ctx" where
  "example_ctx = \<lparr>HashAlg = (\<lambda>bs. bs), Outcome = (\<lambda>n. STATUS_SUCCESS), trace = [],
                   absorbed = [], Hash = []\<rparr>"

definition first_chunk_fails_ctx :: "cng_ctx" where
  "first_chunk_fails_ctx =
     \<lparr>HashAlg = (\<lambda>bs. bs),
      Outcome = (\<lambda>n. if n = 0 then STATUS_UNSUCCESSFUL else STATUS_SUCCESS),
      trace = [], absorbed = [], Hash = []\<rparr>"

text \<open>
  A 64-bit header at \<open>e_lfanew = 64\<close> with one section whose raw data ends at offset 1024:
  in an unsigned file of 1024 bytes, in a file cut after 100 bytes, in a signed file
  whose certificate blob follows the section, in a file whose directory points into the
  section, and without any section.
\<close>

definition example_headers :: "image_nt_headers" where
  "example_headers =
     \<lparr>Magic = 0x20b, NumberOfSections = 1,
      OptionalHeader64 = \<lparr>SizeOfHeaders = 512,
                          DataDirectory_SECURITY = \<lparr>VirtualAddress = 0, Size = 0\<rparr>\<rparr>,
      OptionalHeader32 = \<lparr>SizeOfHeaders = 0,
                          DataDirectory_SECURITY = \<lparr>VirtualAddress = 0, Size = 0\<rparr>\<rparr>,
      IMAGE_FIRST_SECTION = (\<lambda>i. \<lparr>PointerToRawData = 512, SizeOfRawData = 512\<rparr>)\<rparr>"

definition no_exclude_data :: "exclude_data" where
  "no_exclude_data = \<lparr>ChecksumOffset = 0, SecurityOffset = 0,
                       SecurityDirectory = \<lparr>VirtualAddress = 0, Size = 0\<rparr>\<rparr>"

definition unsigned_view :: "file_view_info" where
  "unsigned_view =
     \<lparr>ViewBase = replicate 1024 0, FileSize_LowPart = 1024, e_lfanew = 64,
      NtHeaders = example_headers, ExcludeData = no_exclude_data,
      LastError = IMAGE_VERIFY_OK\<rparr>"

definition truncated_view :: "file_view_info" where
  "truncated_view =
     \<lparr>ViewBase = replicate 100 0, FileSize_LowPart = 100, e_lfanew = 64,
      NtHeaders = example_headers, ExcludeData = no_exclude_data,
      LastError = IMAGE_VERIFY_OK\<rparr>"

definition signed_headers :: "image_nt_headers" where
  "signed_headers =
     example_headers\<lparr>OptionalHeader64 :=
       \<lparr>SizeOfHeaders = 512,
        DataDirectory_SECURITY = \<lparr>VirtualAddress = 1024, Size = 16\<rparr>\<rparr>\<rparr>"

definition signed_view :: "file_view_info" where
  "signed_view =
     \<lparr>ViewBase = replicate 1040 0, FileSize_LowPart = 1040, e_lfanew = 64,
      NtHeaders = signed_headers, ExcludeData = no_exclude_data,
      LastError = IMAGE_VERIFY_OK\<rparr>"

definition aliasing_view :: "file_view_info" where
  "aliasing_view =
     signed_view\<lparr>NtHeaders := signed_headers\<lparr>OptionalHeader64 :=
       \<lparr>SizeOfHeaders = 512,
        DataDirectory_SECURITY = \<lparr>VirtualAddress = 600, Size = 16\<rparr>\<rparr>\<rparr>\<rparr>"

definition no_sections_view :: "file_view_info" where
  "no_sections_view =
     unsigned_view\<lparr>NtHeaders := example_headers\<lparr>NumberOfSections := 0,
       OptionalHeader64 := \<lparr>SizeOfHeaders = 512,
          DataDirectory_SECURITY = \<lparr>VirtualAddress = 0, Size = 0xFFFFFFFF\<rparr>\<rparr>\<rparr>\<rparr>"

text \<open>
  The signed file again, with a directory that breaks several checks at once: no section
  and a blob beyond the file; a blob beyond the file with a size that is too large; a
  size one byte too large. Then a section whose raw data would end beyond \<open>2 ^ 32\<close>,
  with the directory inside it; and a directory at offset 100, before the directory
  entry itself, with a last section that has no raw data, as the calculator receives it
  and as it leaves it.
\<close>

definition crafted_view :: "u16 \<Rightarrow> image_section_header \<Rightarrow> u32 \<Rightarrow> u32 \<Rightarrow> file_view_info" where
  "crafted_view n s va sz =
     signed_view\<lparr>NtHeaders := signed_headers\<lparr>NumberOfSections := n,
       OptionalHeader64 := \<lparr>SizeOfHeaders = 512,
          DataDirectory_SECURITY = \<lparr>VirtualAddress = va, Size = sz\<rparr>\<rparr>,
       IMAGE_FIRST_SECTION := (\<lambda>i. s)\<rparr>\<rparr>"

definition no_sections_signed_view :: "file_view_info" where
  "no_sections_signed_view =
     crafted_view 0 \<lparr>PointerToRawData = 512, SizeOfRawData = 512\<rparr> 2000 5000"

definition beyond_file_view :: "file_view_info" where
  "beyond_file_view =
     crafted_view 1 \<lparr>PointerToRawData = 512, SizeOfRawData = 512\<rparr> 2000 5000"

definition oversized_view :: "file_view_info" where
  "oversized_view =
     crafted_view 1 \<lparr>PointerToRawData = 512, SizeOfRawData = 512\<rparr> 1024 17"

definition wrapping_section_view :: "file_view_info" where
  "wrapping_section_view =
     crafted_view 1 \<lparr>PointerToRawData = 0x200, SizeOfRawData = 0xFFFFFF00\<rparr> 1024 16"

definition low_directory_view :: "file_view_info" where
  "low_directory_view =
     crafted_view 1 \<lparr>PointerToRawData = 0, SizeOfRawData = 0\<rparr> 100 16"

definition low_directory_image :: "file_view_info" where
  "low_directory_image = snd (HashpGetExcludeRange low_directory_view)"

text \<open>
  Two small views with the checksum field at offset 2, the directory entry at offset 8
  and a certificate blob at offset 21; they differ in exactly these three places. Then
  the first of them with 12 bytes of headers, and an image whose optional header magic
  is not recognized.
\<close>

definition signed_image_a :: "file_view_info" where
  "signed_image_a =
     \<lparr>ViewBase = [10, 11, 1, 1, 1, 1, 12, 13, 2, 2, 2, 2, 2, 2, 2, 2, 14, 15, 16, 17, 18,
                  3, 3, 3],
      FileSize_LowPart = 24, e_lfanew = 0, NtHeaders = example_headers,
      ExcludeData = \<lparr>ChecksumOffset = 2, SecurityOffset = 8,
                     SecurityDirectory = \<lparr>VirtualAddress = 21, Size = 3\<rparr>\<rparr>,
      LastError = IMAGE_VERIFY_OK\<rparr>"

definition signed_image_b :: "file_view_info" where
  "signed_image_b =
     signed_image_a\<lparr>ViewBase :=
       [10, 11, 9, 9, 9, 9, 12, 13, 8, 8, 8, 8, 8, 8, 8, 8, 14, 15, 16, 17, 18, 7, 7, 7]\<rparr>"

definition page_image :: "file_view_info" where
  "page_image =
     signed_image_a\<lparr>NtHeaders := example_headers\<lparr>OptionalHeader64 :=
       \<lparr>SizeOfHeaders = 12,
        DataDirectory_SECURITY = \<lparr>VirtualAddress = 21, Size = 3\<rparr>\<rparr>\<rparr>\<rparr>"

definition unsupported_image :: "file_view_info" where
  "unsupported_image =
     unsigned_view\<lparr>NtHeaders := example_headers\<lparr>Magic := 0\<rparr>\<rparr>"

section \<open>Facts about the hash engine and the padding helper\<close>

lemma pbInput_replicate: "pbInput = replicate 8 0"
  by (simp add: pbInput_def eval_nat_numeral)

lemma take_pbInput: "take n pbInput = replicate (min n 8) 0"
  by (simp add: pbInput_replicate min.commute)

lemma pad_rest: "unat (x - 8 * drop_bit 3 x) = unat x mod 8" for x :: u32
proof -
  have d: "unat (drop_bit 3 x) = unat x div 8"
    by (simp add: drop_bit_eq_div unat_div)
  have b: "unat x < 2 ^ 32" using unsigned_less [of x] by simp
  have m: "unat (8 * drop_bit 3 x) = 8 * (unat x div 8)"
    using b d by (simp add: unat_word_ariths)
  have le: "8 * drop_bit 3 x \<le> x"
    by (simp add: word_le_nat_alt m)
  show ?thesis using le m by (simp add: unat_sub) presburger
qed

lemma BCryptHashData_fields:
  "trace (snd (BCryptHashData ctx p bs)) = trace ctx @ [HashData p bs]"
  "HashAlg (snd (BCryptHashData ctx p bs)) = HashAlg ctx"
  "Outcome (snd (BCryptHashData ctx p bs)) = Outcome ctx"
  "Hash (snd (BCryptHashData ctx p bs)) = Hash ctx"
  "fst (BCryptHashData ctx p bs) = Outcome ctx (length (trace ctx))"
  "absorbed (snd (BCryptHashData ctx p bs)) =
     (if NT_SUCCESS (Outcome ctx (length (trace ctx))) then absorbed ctx @ bs else absorbed ctx)"
  by (simp_all add: BCryptHashData_def Let_def)

lemma BCryptHashData_success:
  "always_succeeds ctx \<Longrightarrow> NT_SUCCESS (fst (BCryptHashData ctx p bs))"
  "always_succeeds ctx \<Longrightarrow> always_succeeds (snd (BCryptHashData ctx p bs))"
  "always_succeeds ctx \<Longrightarrow> absorbed (snd (BCryptHashData ctx p bs)) = absorbed ctx @ bs"
  by (simp_all add: always_succeeds_def BCryptHashData_fields)

lemma BCryptFinishHash_fields:
  "trace (snd (BCryptFinishHash ctx)) = trace ctx @ [FinishHash]"
  "fst (BCryptFinishHash ctx) = Outcome ctx (length (trace ctx))"
  "Hash (snd (BCryptFinishHash ctx)) =
     (if NT_SUCCESS (Outcome ctx (length (trace ctx))) then HashAlg ctx (absorbed ctx)
      else Hash ctx)"
  by (simp_all add: BCryptFinishHash_def Let_def)

lemma HashpAddPad_loop_result:
  "i \<noteq> 0 \<Longrightarrow>
   fst (HashpAddPad_loop ctx cbPad i) = Outcome ctx (length (trace ctx) + unat i - 1) \<and>
   fst (snd (HashpAddPad_loop ctx cbPad i)) = cbPad - 8 * i \<and>
   trace (snd (snd (HashpAddPad_loop ctx cbPad i))) =
     trace ctx @ replicate (unat i) (HashData PadPtr (replicate 8 0)) \<and>
   HashAlg (snd (snd (HashpAddPad_loop ctx cbPad i))) = HashAlg ctx \<and>
   Outcome (snd (snd (HashpAddPad_loop ctx cbPad i))) = Outcome ctx \<and>
   Hash (snd (snd (HashpAddPad_loop ctx cbPad i))) = Hash ctx \<and>
   (always_succeeds ctx \<longrightarrow>
      absorbed (snd (snd (HashpAddPad_loop ctx cbPad i))) =
        absorbed ctx @ replicate (8 * unat i) 0)"
proof (induction ctx cbPad i rule: HashpAddPad_loop.induct)
  case (1 ctx cbPad i)
  define ctx1 where "ctx1 = snd (BCryptHashData ctx PadPtr (replicate 8 0))"
  define st where "st = fst (BCryptHashData ctx PadPtr (replicate 8 0))"
  have call: "BCryptHashData ctx PadPtr (take (unat DEFAULT_ALIGN_BYTES) pbInput) = (st, ctx1)"
    by (simp add: ctx1_def st_def take_pbInput DEFAULT_ALIGN_BYTES_def)
  have call': "BCryptHashData ctx PadPtr (take 8 pbInput) = (st, ctx1)"
    using call by (simp add: DEFAULT_ALIGN_BYTES_def)
  show ?case
  proof (cases "i - 1 = 0")
    case True
    then have i: "i = 1" by simp
    have "HashpAddPad_loop ctx cbPad i = (st, cbPad - 8, ctx1)"
      by (subst HashpAddPad_loop.simps) (simp add: call' i DEFAULT_ALIGN_BYTES_def)
    then show ?thesis
      by (simp add: i st_def ctx1_def BCryptHashData_fields always_succeeds_def)
  next
    case False
    have step: "HashpAddPad_loop ctx cbPad i = HashpAddPad_loop ctx1 (cbPad - 8) (i - 1)"
      using False by (subst HashpAddPad_loop.simps) (simp add: call' DEFAULT_ALIGN_BYTES_def)
    have IH: "fst (HashpAddPad_loop ctx1 (cbPad - 8) (i - 1)) =
        Outcome ctx1 (length (trace ctx1) + unat (i - 1) - 1) \<and>
      fst (snd (HashpAddPad_loop ctx1 (cbPad - 8) (i - 1))) = cbPad - 8 - 8 * (i - 1) \<and>
      trace (snd (snd (HashpAddPad_loop ctx1 (cbPad - 8) (i - 1)))) =
        trace ctx1 @ replicate (unat (i - 1)) (HashData PadPtr (replicate 8 0)) \<and>
      HashAlg (snd (snd (HashpAddPad_loop ctx1 (cbPad - 8) (i - 1)))) = HashAlg ctx1 \<and>
      Outcome (snd (snd (HashpAddPad_loop ctx1 (cbPad - 8) (i - 1)))) = Outcome ctx1 \<and>
      Hash (snd (snd (HashpAddPad_loop ctx1 (cbPad - 8) (i - 1)))) = Hash ctx1 \<and>
      (always_succeeds ctx1 \<longrightarrow>
         absorbed (snd (snd (HashpAddPad_loop ctx1 (cbPad - 8) (i - 1)))) =
           absorbed ctx1 @ replicate (8 * unat (i - 1)) 0)"
      using "1.IH" [OF call [symmetric] False False] by (simp add: DEFAULT_ALIGN_BYTES_def)
    have u: "unat i = Suc (unat (i - 1))"
      using "1.prems" by (simp add: unat_minus_one unat_gt_0)
    have pos: "0 < unat (i - 1)" using False by (simp add: unat_gt_0)
    have w: "cbPad - 8 - 8 * (i - 1) = cbPad - 8 * i" by (simp add: algebra_simps)
    show ?thesis
      using IH pos unfolding step w
      by (simp add: u ctx1_def BCryptHashData_fields always_succeeds_def replicate_add)
  qed
qed

lemma HashpAddPad_result:
  "fst (HashpAddPad n ctx) =
     (if n = 0 then STATUS_SUCCESS
      else Outcome ctx (length (trace ctx) + length (pad_chunks (unat n)) - 1)) \<and>
   trace (snd (HashpAddPad n ctx)) = trace ctx @ pad_chunks (unat n) \<and>
   HashAlg (snd (HashpAddPad n ctx)) = HashAlg ctx \<and>
   Outcome (snd (HashpAddPad n ctx)) = Outcome ctx \<and>
   Hash (snd (HashpAddPad n ctx)) = Hash ctx \<and>
   (always_succeeds ctx \<longrightarrow>
      absorbed (snd (HashpAddPad n ctx)) = absorbed ctx @ replicate (unat n) 0)"
proof (cases "n \<ge> DEFAULT_ALIGN_BYTES")
  case False
  then have small: "unat n < 8"
    by (simp add: DEFAULT_ALIGN_BYTES_def word_le_nat_alt not_le)
  then have dm: "unat n div 8 = 0" "unat n mod 8 = unat n" by simp_all
  show ?thesis
  proof (cases "n = 0")
    case True
    then show ?thesis
      by (simp add: HashpAddPad_def DEFAULT_ALIGN_BYTES_def pad_chunks_def)
  next
    case nz: False
    then have "0 < unat n" by (simp add: unat_gt_0)
    then show ?thesis
      using False nz small
      by (simp add: HashpAddPad_def pad_chunks_def dm take_pbInput BCryptHashData_fields
          always_succeeds_def)
  qed
next
  case True
  define i where "i = drop_bit 3 n"
  have ui: "unat i = unat n div 8"
    by (simp add: i_def drop_bit_eq_div unat_div)
  have big: "8 \<le> unat n"
    using True by (simp add: DEFAULT_ALIGN_BYTES_def word_le_nat_alt)
  then have "0 < unat i" unfolding ui by simp
  then have inz: "i \<noteq> 0" by (simp add: unat_gt_0)
  define st where "st = fst (HashpAddPad_loop ctx n i)"
  define cb where "cb = fst (snd (HashpAddPad_loop ctx n i))"
  define c1 where "c1 = snd (snd (HashpAddPad_loop ctx n i))"
  have loop: "HashpAddPad_loop ctx n i = (st, cb, c1)"
    by (simp add: st_def cb_def c1_def)
  have L: "st = Outcome ctx (length (trace ctx) + unat i - 1)"
    "cb = n - 8 * i"
    "trace c1 = trace ctx @ replicate (unat i) (HashData PadPtr (replicate 8 0))"
    "HashAlg c1 = HashAlg ctx" "Outcome c1 = Outcome ctx" "Hash c1 = Hash ctx"
    "always_succeeds ctx \<longrightarrow> absorbed c1 = absorbed ctx @ replicate (8 * unat i) 0"
    using HashpAddPad_loop_result [OF inz, of ctx n] by (simp_all add: st_def cb_def c1_def)
  have ucb: "unat cb = unat n mod 8"
    unfolding L(2) i_def by (rule pad_rest)
  have n0: "n \<noteq> 0" using big by auto
  have unfold: "HashpAddPad n ctx =
      (if cb \<noteq> 0 then BCryptHashData c1 PadPtr (take (unat cb) pbInput) else (st, c1))"
    using True by (simp add: HashpAddPad_def loop i_def [symmetric])
  have split: "replicate (8 * (unat n div 8)) (0::u8) @ replicate (unat n mod 8) 0 =
      replicate (unat n) 0"
    by (simp add: replicate_add [symmetric])
  note L' = L(1) L(3-7)
  show ?thesis
  proof (cases "cb = 0")
    case True
    then have m0: "unat n mod 8 = 0" using ucb by simp
    then have e: "8 * (unat n div 8) = unat n" by presburger
    have r: "HashpAddPad n ctx = (st, c1)" using True by (simp add: unfold)
    show ?thesis
      unfolding r using L' n0 \<open>0 < unat i\<close>
      by (simp add: pad_chunks_def m0 ui e)
  next
    case False
    then have "0 < unat cb" by (simp add: unat_gt_0)
    then have m0: "unat n mod 8 \<noteq> 0" using ucb by simp
    have r: "HashpAddPad n ctx = BCryptHashData c1 PadPtr (replicate (unat n mod 8) 0)"
      using False by (simp add: unfold ucb take_pbInput)
    show ?thesis
      unfolding r using L' n0 m0 split
      by (simp add: pad_chunks_def ui BCryptHashData_fields always_succeeds_def)
  qed
qed

lemma HashpAddPad_success:
  assumes "always_succeeds ctx"
  shows "NT_SUCCESS (fst (HashpAddPad n ctx))"
    and "always_succeeds (snd (HashpAddPad n ctx))"
    and "absorbed (snd (HashpAddPad n ctx)) = absorbed ctx @ replicate (unat n) 0"
    and "trace (snd (HashpAddPad n ctx)) = trace ctx @ pad_chunks (unat n)"
    and "HashAlg (snd (HashpAddPad n ctx)) = HashAlg ctx"
  using assms HashpAddPad_result [of n ctx]
  by (simp_all add: always_succeeds_def NT_SUCCESS_def STATUS_SUCCESS_def)

lemma pad_chunks_small: "0 < k \<Longrightarrow> k < 8 \<Longrightarrow> pad_chunks k = [HashData PadPtr (replicate k 0)]"
  by (simp add: pad_chunks_def)

lemma fed_bytes_append: "fed_bytes (xs @ ys) = fed_bytes xs @ fed_bytes ys"
  by (simp add: fed_bytes_def)

lemma fed_bytes_chunks8:
  "fed_bytes (replicate k (HashData PadPtr (replicate 8 0))) = replicate (8 * k) 0"
  by (induction k) (simp_all add: fed_bytes_def replicate_add)

lemma fed_bytes_pad_chunks: "fed_bytes (pad_chunks n) = replicate n 0"
proof (cases "n mod 8 = 0")
  case True
  then have "8 * (n div 8) = n" by presburger
  then show ?thesis
    using True by (simp add: pad_chunks_def fed_bytes_chunks8)
next
  case False
  have "replicate (8 * (n div 8)) (0::u8) @ replicate (n mod 8) 0 = replicate n 0"
    by (simp add: replicate_add [symmetric])
  moreover have "fed_bytes [HashData PadPtr (replicate (n mod 8) 0)] = replicate (n mod 8) 0"
    by (simp add: fed_bytes_def)
  ultimately show ?thesis
    using False by (simp add: pad_chunks_def fed_bytes_append fed_bytes_chunks8)
qed

lemma pad_chunks_from_buffer:
  "e \<in> set (pad_chunks n) \<Longrightarrow> \<exists>k\<le>8. e = HashData PadPtr (take k pbInput)"
proof -
  assume "e \<in> set (pad_chunks n)"
  then consider "e = HashData PadPtr (replicate 8 0)"
    | "e = HashData PadPtr (replicate (n mod 8) 0)"
    by (auto simp: pad_chunks_def split: if_splits)
  then show ?thesis
  proof cases
    case 1
    then have "e = HashData PadPtr (take 8 pbInput)" by (simp add: take_pbInput)
    then show ?thesis by blast
  next
    case 2
    have "n mod 8 \<le> 8" by simp
    moreover have "e = HashData PadPtr (take (n mod 8) pbInput)"
      using 2 by (simp add: take_pbInput min_def)
    ultimately show ?thesis by blast
  qed
qed

lemma always_succeeds_example_ctx: "always_succeeds example_ctx"
  by (simp add: always_succeeds_def example_ctx_def NT_SUCCESS_def STATUS_SUCCESS_def)

section \<open>Properties of HashpAddPad\<close>

text \<open>
  C8. For every count, \<open>HashpAddPad\<close> calls the primitive on \<open>count div 8\<close> chunks of
  eight bytes followed by one chunk of \<open>count mod 8\<close> bytes when that is not zero; the
  chunks hold \<open>count\<close> zero bytes in all, and each is a prefix, at most eight bytes long,
  of the one zero buffer \<open>pbInput\<close>. This holds whatever the primitive returns.
\<close>

theorem HashpAddPad_feeds_zero_chunks:
  "trace (snd (HashpAddPad count ctx)) = trace ctx @ pad_chunks (unat count) \<and>
   fed_bytes (pad_chunks (unat count)) = replicate (unat count) 0 \<and>
   (\<forall>e \<in> set (pad_chunks (unat count)). \<exists>k\<le>8. e = HashData PadPtr (take k pbInput))"
  using HashpAddPad_result [of count ctx] fed_bytes_pad_chunks [of "unat count"]
    pad_chunks_from_buffer [of _ "unat count"]
  by blast

theorem HashpAddPad_feeds_zero_chunks_witness:
  "trace (snd (HashpAddPad 19 example_ctx)) =
     [HashData PadPtr [0, 0, 0, 0, 0, 0, 0, 0], HashData PadPtr [0, 0, 0, 0, 0, 0, 0, 0],
      HashData PadPtr [0, 0, 0]] \<and>
   fed_bytes (pad_chunks 19) = replicate 19 0"
proof -
  have p: "pad_chunks 19 =
     [HashData PadPtr [0, 0, 0, 0, 0, 0, 0, 0], HashData PadPtr [0, 0, 0, 0, 0, 0, 0, 0],
      HashData PadPtr [0, 0, 0]]"
    by code_simp
  have t: "trace example_ctx = []" by (simp add: example_ctx_def)
  show ?thesis
    using HashpAddPad_feeds_zero_chunks [of 19 example_ctx] by (simp add: p t)
qed

text \<open>
  C9. That a failing chunk always makes \<open>HashpAddPad\<close> return a failure does not hold of
  the code: the loop overwrites \<open>ntStatus\<close> at every chunk and tests it nowhere. With a
  padding of 16 bytes, the first chunk failing and the second one succeeding, both
  chunks are fed and the status returned is \<open>STATUS_SUCCESS\<close>.
\<close>

theorem HashpAddPad_loses_chunk_failure:
  "\<not> NT_SUCCESS (Outcome first_chunk_fails_ctx 0) \<and>
   trace (snd (HashpAddPad 16 first_chunk_fails_ctx)) =
     [HashData PadPtr [0, 0, 0, 0, 0, 0, 0, 0], HashData PadPtr [0, 0, 0, 0, 0, 0, 0, 0]] \<and>
   fst (HashpAddPad 16 first_chunk_fails_ctx) = STATUS_SUCCESS \<and>
   NT_SUCCESS (fst (HashpAddPad 16 first_chunk_fails_ctx))"
  by code_simp

section \<open>Facts about the exclusion range\<close>

lemma unat_numberOfSections: "unat (ucast (n :: u16) :: u32) = unat n"
  by transfer simp

lemma ucast_numberOfSections_0: "(ucast (n :: u16) :: u32) = 0 \<longleftrightarrow> unat n = 0"
  using unat_numberOfSections [of n] unat_eq_0 [of "ucast n :: u32"] by simp

lemma unat_last_index: "unat n \<noteq> 0 \<Longrightarrow> unat ((ucast (n :: u16) :: u32) - 1) = unat n - 1"
  using unat_numberOfSections [of n] ucast_numberOfSections_0 [of n]
  by (simp add: unat_minus_one)

lemma check_directory_eq:
  "check_directory v d =
     (let n = unat (NumberOfSections (NtHeaders v));
          last_section = IMAGE_FIRST_SECTION (NtHeaders v) (n - 1)
      in if n = 0 then Some IMAGE_VERIFY_BAD_SECTION_COUNT
         else if unat (VirtualAddress d) <
                 (unat (PointerToRawData last_section) + unat (SizeOfRawData last_section)) mod 2 ^ 32
              then Some IMAGE_VERIFY_BAD_SECURITY_DIRECTORY_VA
         else if unat (FileSize_LowPart v) \<le> unat (VirtualAddress d)
              then Some IMAGE_VERIFY_BAD_SECURITY_DIRECTORY_VA
         else if unat (FileSize_LowPart v) - unat (VirtualAddress d) < unat (Size d)
              then Some IMAGE_VERIFY_BAD_SECURITY_DIRECTORY_SIZE
         else None)"
proof (cases "unat (NumberOfSections (NtHeaders v)) = 0")
  case True
  then show ?thesis
    by (simp add: check_directory_def Let_def ucast_numberOfSections_0)
next
  case False
  have sub: "unat (a - b) = unat a - unat b" if "\<not> unat a \<le> unat b" for a b :: u32
    using that by (simp add: unat_sub word_le_nat_alt)
  show ?thesis
    using False
    by (simp add: check_directory_def Let_def ucast_numberOfSections_0 unat_last_index
        word_less_nat_alt word_le_nat_alt unat_word_ariths sub)
qed

lemma example_layouts:
  "select_layout unsigned_view = Some (152, 232, \<lparr>VirtualAddress = 0, Size = 0\<rparr>)"
  "select_layout truncated_view = Some (152, 232, \<lparr>VirtualAddress = 0, Size = 0\<rparr>)"
  "select_layout signed_view = Some (152, 232, \<lparr>VirtualAddress = 1024, Size = 16\<rparr>)"
  "select_layout aliasing_view = Some (152, 232, \<lparr>VirtualAddress = 600, Size = 16\<rparr>)"
  by (simp_all add: select_layout_def unsigned_view_def truncated_view_def signed_view_def
      aliasing_view_def signed_headers_def example_headers_def IMAGE_NT_OPTIONAL_HDR64_MAGIC_def
      CheckSum_OFFSET64_def Security_OFFSET64_def)

lemma crafted_layout:
  "select_layout (crafted_view n s va sz) = Some (152, 232, \<lparr>VirtualAddress = va, Size = sz\<rparr>)"
  by (simp add: select_layout_def crafted_view_def signed_view_def signed_headers_def
      example_headers_def IMAGE_NT_OPTIONAL_HDR64_MAGIC_def CheckSum_OFFSET64_def
      Security_OFFSET64_def)

lemma crafted_fields:
  "NumberOfSections (NtHeaders (crafted_view n s va sz)) = n"
  "IMAGE_FIRST_SECTION (NtHeaders (crafted_view n s va sz)) i = s"
  "FileSize_LowPart (crafted_view n s va sz) = 1040"
  by (simp_all add: crafted_view_def signed_view_def)

lemma crafted_directory:
  "DataDirectory_SECURITY (OptionalHeader64 (NtHeaders (crafted_view n s va sz))) =
     \<lparr>VirtualAddress = va, Size = sz\<rparr>"
  "ViewBase (crafted_view n s va sz) = replicate 1040 0"
  "LastError (crafted_view n s va sz) = IMAGE_VERIFY_OK"
  by (simp_all add: crafted_view_def signed_view_def)

lemma HashpGetExcludeRange_success:
  assumes "HashpGetExcludeRange v = (True, v')"
  shows "\<exists>cs so d. select_layout v = Some (cs, so, d) \<and>
           v' = v\<lparr>ExcludeData := \<lparr>ChecksumOffset = cs, SecurityOffset = so,
                                   SecurityDirectory = d\<rparr>\<rparr>"
  using assms by (auto simp: HashpGetExcludeRange_def split: option.splits if_splits)

section \<open>Properties of HashpGetExcludeRange\<close>

text \<open>
  What the code does for a recognized layout whose security directory has a
  \<open>VirtualAddress\<close> other than zero: it makes four checks in this order and stops at the
  first that fails, storing its error and leaving the descriptor unwritten. The order
  and the errors are those of the specification. The second check compares the
  \<open>VirtualAddress\<close> with the sum \<open>PointerToRawData + SizeOfRawData\<close> taken in 32 bits,
  which is the end of the last section's raw data only when the sum is below \<open>2 ^ 32\<close>.
\<close>

lemma HashpGetExcludeRange_checks:
  assumes "select_layout v = Some (checksumOffset, securityOffset, dataDirectory)"
    and "VirtualAddress dataDirectory \<noteq> 0"
  shows "HashpGetExcludeRange v =
     (let n = unat (NumberOfSections (NtHeaders v));
          last_section = IMAGE_FIRST_SECTION (NtHeaders v) (n - 1);
          va = unat (VirtualAddress dataDirectory);
          fileSize = unat (FileSize_LowPart v)
      in if n = 0 then (False, v\<lparr>LastError := IMAGE_VERIFY_BAD_SECTION_COUNT\<rparr>)
         else if va < (unat (PointerToRawData last_section) +
                       unat (SizeOfRawData last_section)) mod 2 ^ 32
              then (False, v\<lparr>LastError := IMAGE_VERIFY_BAD_SECURITY_DIRECTORY_VA\<rparr>)
         else if fileSize \<le> va
              then (False, v\<lparr>LastError := IMAGE_VERIFY_BAD_SECURITY_DIRECTORY_VA\<rparr>)
         else if fileSize - va < unat (Size dataDirectory)
              then (False, v\<lparr>LastError := IMAGE_VERIFY_BAD_SECURITY_DIRECTORY_SIZE\<rparr>)
         else (True, v\<lparr>ExcludeData := \<lparr>ChecksumOffset = checksumOffset,
                                         SecurityOffset = securityOffset,
                                         SecurityDirectory = dataDirectory\<rparr>\<rparr>))"
  using assms by (simp add: HashpGetExcludeRange_def check_directory_eq Let_def)

lemma HashpGetExcludeRange_checks_examples:
  "HashpGetExcludeRange signed_view =
     (True, signed_view\<lparr>ExcludeData :=
        \<lparr>ChecksumOffset = 152, SecurityOffset = 232,
         SecurityDirectory = \<lparr>VirtualAddress = 1024, Size = 16\<rparr>\<rparr>\<rparr>) \<and>
   HashpGetExcludeRange no_sections_signed_view =
     (False, no_sections_signed_view\<lparr>LastError := IMAGE_VERIFY_BAD_SECTION_COUNT\<rparr>) \<and>
   HashpGetExcludeRange aliasing_view =
     (False, aliasing_view\<lparr>LastError := IMAGE_VERIFY_BAD_SECURITY_DIRECTORY_VA\<rparr>) \<and>
   HashpGetExcludeRange beyond_file_view =
     (False, beyond_file_view\<lparr>LastError := IMAGE_VERIFY_BAD_SECURITY_DIRECTORY_VA\<rparr>) \<and>
   HashpGetExcludeRange oversized_view =
     (False, oversized_view\<lparr>LastError := IMAGE_VERIFY_BAD_SECURITY_DIRECTORY_SIZE\<rparr>)"
proof -
  have nz: "VirtualAddress \<lparr>VirtualAddress = 1024 :: u32, Size = 16 :: u32\<rparr> \<noteq> 0"
    "VirtualAddress \<lparr>VirtualAddress = 600 :: u32, Size = 16 :: u32\<rparr> \<noteq> 0"
    "VirtualAddress \<lparr>VirtualAddress = 2000 :: u32, Size = 5000 :: u32\<rparr> \<noteq> 0"
    "VirtualAddress \<lparr>VirtualAddress = 1024 :: u32, Size = 17 :: u32\<rparr> \<noteq> 0"
    by simp_all
  have a: "HashpGetExcludeRange signed_view =
     (True, signed_view\<lparr>ExcludeData :=
        \<lparr>ChecksumOffset = 152, SecurityOffset = 232,
         SecurityDirectory = \<lparr>VirtualAddress = 1024, Size = 16\<rparr>\<rparr>\<rparr>)"
    "HashpGetExcludeRange aliasing_view =
     (False, aliasing_view\<lparr>LastError := IMAGE_VERIFY_BAD_SECURITY_DIRECTORY_VA\<rparr>)"
    using HashpGetExcludeRange_checks [OF example_layouts(3) nz(1)]
      HashpGetExcludeRange_checks [OF example_layouts(4) nz(2)]
    by (simp_all add: signed_view_def aliasing_view_def signed_headers_def example_headers_def)
  have b: "HashpGetExcludeRange no_sections_signed_view =
     (False, no_sections_signed_view\<lparr>LastError := IMAGE_VERIFY_BAD_SECTION_COUNT\<rparr>)"
    "HashpGetExcludeRange beyond_file_view =
     (False, beyond_file_view\<lparr>LastError := IMAGE_VERIFY_BAD_SECURITY_DIRECTORY_VA\<rparr>)"
    "HashpGetExcludeRange oversized_view =
     (False, oversized_view\<lparr>LastError := IMAGE_VERIFY_BAD_SECURITY_DIRECTORY_SIZE\<rparr>)"
    unfolding no_sections_signed_view_def beyond_file_view_def oversized_view_def
    using HashpGetExcludeRange_checks [OF crafted_layout nz(3), of 0]
      HashpGetExcludeRange_checks [OF crafted_layout nz(3), of 1]
      HashpGetExcludeRange_checks [OF crafted_layout nz(4), of 1]
    by (simp_all add: crafted_fields)
  show ?thesis using a b by simp
qed

text \<open>
  C3. The second check does not do what the specification says of it: a
  \<open>VirtualAddress\<close> below the end of the last section's raw data is to fail with
  \<open>BAD_SECURITY_DIRECTORY_VA\<close>, but the code adds \<open>PointerToRawData\<close> and \<open>SizeOfRawData\<close>
  in 32 bits without a guard. For a last section at offset \<open>0x200\<close> with \<open>0xFFFFFF00\<close>
  bytes of raw data the sum wraps to \<open>0x100\<close>, and a directory at offset 1024, inside
  that section's raw data, passes all four checks: the function returns \<open>TRUE\<close> with
  the descriptor and stores no error. The two checks that follow are written so that
  they cannot wrap (the subtraction \<open>fileSize - VirtualAddress\<close> comes after the test
  \<open>VirtualAddress < fileSize\<close>).
\<close>

theorem HashpGetExcludeRange_raw_data_end_wraps:
  "unat (NumberOfSections (NtHeaders wrapping_section_view)) = 1 \<and>
   unat (PointerToRawData (IMAGE_FIRST_SECTION (NtHeaders wrapping_section_view) 0)) = 512 \<and>
   unat (SizeOfRawData (IMAGE_FIRST_SECTION (NtHeaders wrapping_section_view) 0)) = 4294967040 \<and>
   unat (VirtualAddress (DataDirectory_SECURITY (OptionalHeader64 (NtHeaders wrapping_section_view))))
     = 1024 \<and>
   unat (VirtualAddress (DataDirectory_SECURITY (OptionalHeader64 (NtHeaders wrapping_section_view))))
     < unat (PointerToRawData (IMAGE_FIRST_SECTION (NtHeaders wrapping_section_view) 0)) +
       unat (SizeOfRawData (IMAGE_FIRST_SECTION (NtHeaders wrapping_section_view) 0)) \<and>
   PointerToRawData (IMAGE_FIRST_SECTION (NtHeaders wrapping_section_view) 0) +
     SizeOfRawData (IMAGE_FIRST_SECTION (NtHeaders wrapping_section_view) 0) = 0x100 \<and>
   fst (HashpGetExcludeRange wrapping_section_view) \<and>
   ExcludeData (snd (HashpGetExcludeRange wrapping_section_view)) =
     \<lparr>ChecksumOffset = 152, SecurityOffset = 232,
      SecurityDirectory = \<lparr>VirtualAddress = 1024, Size = 16\<rparr>\<rparr> \<and>
   LastError (snd (HashpGetExcludeRange wrapping_section_view)) = IMAGE_VERIFY_OK"
proof -
  have run: "HashpGetExcludeRange wrapping_section_view =
     (True, wrapping_section_view\<lparr>ExcludeData :=
        \<lparr>ChecksumOffset = 152, SecurityOffset = 232,
         SecurityDirectory = \<lparr>VirtualAddress = 1024, Size = 16\<rparr>\<rparr>\<rparr>)"
    unfolding wrapping_section_view_def
    by (simp add: HashpGetExcludeRange_def crafted_layout check_directory_eq crafted_fields)
  show ?thesis
    unfolding run
    by (simp add: wrapping_section_view_def crafted_fields crafted_directory)
qed

text \<open>
  C7. With a recognized optional header magic and a security directory whose
  \<open>VirtualAddress\<close> is zero, \<open>HashpGetExcludeRange\<close> returns \<open>TRUE\<close> with the descriptor,
  whatever the section count, the section table and the directory's \<open>Size\<close> are.
\<close>

theorem HashpGetExcludeRange_unsigned_skips_checks:
  "(Magic (NtHeaders v) = IMAGE_NT_OPTIONAL_HDR64_MAGIC \<and>
    VirtualAddress (DataDirectory_SECURITY (OptionalHeader64 (NtHeaders v))) = 0 \<longrightarrow>
      HashpGetExcludeRange v =
        (True, v\<lparr>ExcludeData :=
           \<lparr>ChecksumOffset = e_lfanew v + 88, SecurityOffset = e_lfanew v + 168,
            SecurityDirectory = DataDirectory_SECURITY (OptionalHeader64 (NtHeaders v))\<rparr>\<rparr>)) \<and>
   (Magic (NtHeaders v) = IMAGE_NT_OPTIONAL_HDR32_MAGIC \<and>
    VirtualAddress (DataDirectory_SECURITY (OptionalHeader32 (NtHeaders v))) = 0 \<longrightarrow>
      HashpGetExcludeRange v =
        (True, v\<lparr>ExcludeData :=
           \<lparr>ChecksumOffset = e_lfanew v + 88, SecurityOffset = e_lfanew v + 152,
            SecurityDirectory = DataDirectory_SECURITY (OptionalHeader32 (NtHeaders v))\<rparr>\<rparr>))"
  by (simp add: HashpGetExcludeRange_def select_layout_def IMAGE_NT_OPTIONAL_HDR64_MAGIC_def
      IMAGE_NT_OPTIONAL_HDR32_MAGIC_def CheckSum_OFFSET64_def Security_OFFSET64_def
      CheckSum_OFFSET32_def Security_OFFSET32_def)

theorem HashpGetExcludeRange_unsigned_skips_checks_witness:
  "HashpGetExcludeRange no_sections_view =
     (True, no_sections_view\<lparr>ExcludeData :=
        \<lparr>ChecksumOffset = 152, SecurityOffset = 232,
         SecurityDirectory = \<lparr>VirtualAddress = 0, Size = 0xFFFFFFFF\<rparr>\<rparr>\<rparr>)"
  using HashpGetExcludeRange_unsigned_skips_checks [of no_sections_view]
  by (simp add: no_sections_view_def unsigned_view_def example_headers_def
      IMAGE_NT_OPTIONAL_HDR64_MAGIC_def)

text \<open>
  C6, as stated, fails: \<open>HashpGetExcludeRange\<close> never compares the offsets it computes
  with the file size. For a file of 100 bytes whose header starts at offset 64 it
  succeeds with \<open>securityOffset = 232\<close>.
\<close>

theorem descriptor_invariant_counterexample:
  "fst (HashpGetExcludeRange truncated_view) \<and>
   unat (SecurityOffset (ExcludeData (snd (HashpGetExcludeRange truncated_view)))) = 232 \<and>
   unat (FileSize_LowPart (snd (HashpGetExcludeRange truncated_view))) = 100 \<and>
   \<not> (unat (ChecksumOffset (ExcludeData (snd (HashpGetExcludeRange truncated_view)))) + 4
         \<le> unat (SecurityOffset (ExcludeData (snd (HashpGetExcludeRange truncated_view)))) \<and>
       unat (SecurityOffset (ExcludeData (snd (HashpGetExcludeRange truncated_view)))) + 8
         \<le> unat (FileSize_LowPart (snd (HashpGetExcludeRange truncated_view))))"
  by code_simp

text \<open>
  C6, amended. When the NT headers lie inside the file, every descriptor that
  \<open>HashpGetExcludeRange\<close> produces satisfies \<open>checksumOffset + 4 \<le> securityOffset\<close> and
  \<open>securityOffset + 8 \<le> fileSize\<close>.
\<close>

theorem descriptor_invariant_when_headers_in_file:
  assumes "HashpGetExcludeRange v = (True, v')"
    and "nt_headers_in_file v"
  shows "unat (ChecksumOffset (ExcludeData v')) + 4 \<le> unat (SecurityOffset (ExcludeData v')) \<and>
         unat (SecurityOffset (ExcludeData v')) + 8 \<le> unat (FileSize_LowPart v')"
proof -
  obtain cs so d where l: "select_layout v = Some (cs, so, d)"
    and v': "v' = v\<lparr>ExcludeData := \<lparr>ChecksumOffset = cs, SecurityOffset = so,
                                     SecurityDirectory = d\<rparr>\<rparr>"
    using HashpGetExcludeRange_success [OF assms(1)] by blast
  have b: "unat (FileSize_LowPart v) < 2 ^ 32"
    using unsigned_less [of "FileSize_LowPart v"] by simp
  show ?thesis
  proof (cases "Magic (NtHeaders v) = IMAGE_NT_OPTIONAL_HDR64_MAGIC")
    case True
    then have fit: "unat (e_lfanew v) + 264 \<le> unat (FileSize_LowPart v)"
      using assms(2) by (simp add: nt_headers_in_file_def)
    have "cs = e_lfanew v + 88" "so = e_lfanew v + 168"
      using l True by (simp_all add: select_layout_def CheckSum_OFFSET64_def Security_OFFSET64_def)
    moreover have "unat (e_lfanew v + 88) = unat (e_lfanew v) + 88"
      "unat (e_lfanew v + 168) = unat (e_lfanew v) + 168"
      using fit b by (simp_all add: unat_word_ariths)
    ultimately show ?thesis using fit by (simp add: v')
  next
    case False
    then have m32: "Magic (NtHeaders v) = IMAGE_NT_OPTIONAL_HDR32_MAGIC"
      using l by (simp add: select_layout_def split: if_splits)
    have fit: "unat (e_lfanew v) + 248 \<le> unat (FileSize_LowPart v)"
      using assms(2) False by (simp add: nt_headers_in_file_def)
    have "cs = e_lfanew v + 88" "so = e_lfanew v + 152"
      using l False m32
      by (simp_all add: select_layout_def CheckSum_OFFSET32_def Security_OFFSET32_def)
    moreover have "unat (e_lfanew v + 88) = unat (e_lfanew v) + 88"
      "unat (e_lfanew v + 152) = unat (e_lfanew v) + 152"
      using fit b by (simp_all add: unat_word_ariths)
    ultimately show ?thesis using fit by (simp add: v')
  qed
qed

theorem descriptor_invariant_when_headers_in_file_witness:
  "nt_headers_in_file signed_view \<and>
   fst (HashpGetExcludeRange signed_view) \<and>
   unat (ChecksumOffset (ExcludeData (snd (HashpGetExcludeRange signed_view)))) = 152 \<and>
   unat (SecurityOffset (ExcludeData (snd (HashpGetExcludeRange signed_view)))) = 232 \<and>
   unat (FileSize_LowPart (snd (HashpGetExcludeRange signed_view))) = 1040 \<and>
   unat (ChecksumOffset (ExcludeData (snd (HashpGetExcludeRange signed_view)))) + 4
     \<le> unat (SecurityOffset (ExcludeData (snd (HashpGetExcludeRange signed_view)))) \<and>
   unat (SecurityOffset (ExcludeData (snd (HashpGetExcludeRange signed_view)))) + 8
     \<le> unat (FileSize_LowPart (snd (HashpGetExcludeRange signed_view)))"
proof -
  have h: "nt_headers_in_file signed_view"
    by (simp add: nt_headers_in_file_def signed_view_def signed_headers_def example_headers_def
        IMAGE_NT_OPTIONAL_HDR64_MAGIC_def)
  have r: "HashpGetExcludeRange signed_view =
     (True, signed_view\<lparr>ExcludeData :=
        \<lparr>ChecksumOffset = 152, SecurityOffset = 232,
         SecurityDirectory = \<lparr>VirtualAddress = 1024, Size = 16\<rparr>\<rparr>\<rparr>)"
    by (simp add: HashpGetExcludeRange_def example_layouts check_directory_eq)
      (simp add: signed_view_def signed_headers_def example_headers_def)
  have f: "unat (FileSize_LowPart signed_view) = 1040" by (simp add: signed_view_def)
  show ?thesis
    using descriptor_invariant_when_headers_in_file [OF r h] h
    by (simp add: r f)
qed

section \<open>Properties of CalculateAuthenticodeHash\<close>

lemma hash_image_in_bounds:
  "cb = 0 \<or> off + cb \<le> length img \<Longrightarrow>
   hash_image img ctx off cb = Some (BCryptHashData ctx (ImagePtr off) (take cb (drop off img)))"
  by (auto simp: hash_image_def read_image_def)

lemma signed_image_a_cert_end: "cert_end signed_image_a = 21"
  by (simp add: cert_end_def signed_image_a_def)

lemma signed_image_a_bounds:
  "unat (ChecksumOffset (ExcludeData signed_image_a)) + 4
     \<le> unat (SecurityOffset (ExcludeData signed_image_a))"
  "unat (SecurityOffset (ExcludeData signed_image_a)) + 8 \<le> cert_end signed_image_a"
  "cert_end signed_image_a \<le> length (ViewBase signed_image_a)"
  unfolding signed_image_a_cert_end by (simp_all add: signed_image_a_def)

lemma signed_image_a_feed:
  "authenticode_feed signed_image_a =
     [HashData (ImagePtr 0) [10, 11], HashData (ImagePtr 6) [12, 13],
      HashData (ImagePtr 16) [14, 15, 16, 17, 18], HashData PadPtr [0, 0, 0]]"
  unfolding authenticode_feed_def signed_image_a_cert_end Let_def
  by (simp add: signed_image_a_def span_def numeral_3_eq_3)

lemma example_ctx_fields:
  "trace example_ctx = []" "absorbed example_ctx = []" "HashAlg example_ctx = (\<lambda>bs. bs)"
  by (simp_all add: example_ctx_def)

lemma signed_image_a_run:
  "fst (CalculateAuthenticodeHash signed_image_a example_ctx)"
  "Hash (snd (snd (CalculateAuthenticodeHash signed_image_a example_ctx))) =
     [10, 11, 12, 13, 14, 15, 16, 17, 18, 0, 0, 0]"
  by code_simp+

lemma page_image_run:
  "map_option (\<lambda>r. (fst r, trace (snd (snd r)), Hash (snd (snd r))))
     (CalculateFirstPageHash 32 page_image example_ctx) =
   Some (True,
     [HashData (ImagePtr 0) [10], HashData (ImagePtr 1) [11], HashData (ImagePtr 6) [12],
      HashData (ImagePtr 7) [13], HashData PadPtr [0, 0, 0, 0, 0, 0, 0, 0],
      HashData PadPtr [0, 0, 0, 0, 0, 0, 0, 0], FinishHash],
     [10, 11, 12, 13, 0, 0, 0, 0, 0, 0, 0, 0, 0, 0, 0, 0, 0, 0, 0, 0])"
  by code_simp

lemma low_directory_accepted:
  "HashpGetExcludeRange low_directory_view =
     (True, low_directory_view\<lparr>ExcludeData :=
        \<lparr>ChecksumOffset = 152, SecurityOffset = 232,
         SecurityDirectory = \<lparr>VirtualAddress = 100, Size = 16\<rparr>\<rparr>\<rparr>)"
  unfolding low_directory_view_def
  by (simp add: HashpGetExcludeRange_def crafted_layout check_directory_eq crafted_fields)

lemma low_directory_image_fields:
  "ExcludeData low_directory_image =
     \<lparr>ChecksumOffset = 152, SecurityOffset = 232,
      SecurityDirectory = \<lparr>VirtualAddress = 100, Size = 16\<rparr>\<rparr>"
  "ViewBase low_directory_image = replicate 1040 0"
  "FileSize_LowPart low_directory_image = 1040"
  by (simp_all add: low_directory_image_def low_directory_accepted)
    (simp_all add: low_directory_view_def crafted_fields crafted_directory)

text \<open>
  C1, as stated for every descriptor, fails. A directory whose \<open>VirtualAddress\<close> is not
  zero and lies below \<open>securityOffset + 8\<close> passes \<open>HashpGetExcludeRange\<close> when the last
  section has no raw data: here \<open>VirtualAddress = 100\<close> and \<open>securityOffset = 232\<close> in a
  file of 1040 bytes. The hasher feeds the first two spans, then computes the length of
  the third as \<open>100 - 240\<close> in 32 bits, \<open>0xFFFFFF74\<close>; the read leaves the mapping, the
  fault is caught, and the function returns \<open>FALSE\<close> with
  \<open>IMAGE_VERIFY_EXCEPTION_IN_PROCESS\<close>, without a third span, padding or finalization.
\<close>

theorem CalculateAuthenticodeHash_low_directory_counterexample:
  "fst (HashpGetExcludeRange low_directory_view) \<and>
   low_directory_image = snd (HashpGetExcludeRange low_directory_view) \<and>
   ExcludeData low_directory_image =
     \<lparr>ChecksumOffset = 152, SecurityOffset = 232,
      SecurityDirectory = \<lparr>VirtualAddress = 100, Size = 16\<rparr>\<rparr> \<and>
   length (ViewBase low_directory_image) = 1040 \<and>
   always_succeeds example_ctx \<and>
   VirtualAddress (SecurityDirectory (ExcludeData low_directory_image)) -
     (SecurityOffset (ExcludeData low_directory_image) + 8) = 0xFFFFFF74 \<and>
   \<not> fst (CalculateAuthenticodeHash low_directory_image example_ctx) \<and>
   LastError (fst (snd (CalculateAuthenticodeHash low_directory_image example_ctx))) =
     IMAGE_VERIFY_EXCEPTION_IN_PROCESS \<and>
   trace (snd (snd (CalculateAuthenticodeHash low_directory_image example_ctx))) =
     [HashData (ImagePtr 0) (replicate 152 0), HashData (ImagePtr 156) (replicate 76 0)] \<and>
   FinishHash \<notin> set (trace (snd (snd (CalculateAuthenticodeHash low_directory_image example_ctx)))) \<and>
   Hash (snd (snd (CalculateAuthenticodeHash low_directory_image example_ctx))) = Hash example_ctx"
proof -
  define x1 where "x1 = BCryptHashData example_ctx (ImagePtr 0) (replicate 152 0)"
  define x2 where "x2 = BCryptHashData (snd x1) (ImagePtr 156) (replicate 76 0)"
  have ok: "NT_SUCCESS (fst x1)" "NT_SUCCESS (fst x2)"
    using always_succeeds_example_ctx
    by (simp_all add: x1_def x2_def BCryptHashData_success)
  have r1: "hash_image (replicate 1040 0) example_ctx 0 152 = Some x1"
    by (simp add: hash_image_def read_image_def x1_def)
  have r2: "hash_image (replicate 1040 0) (snd x1) 156 76 = Some x2"
    by (simp add: hash_image_def read_image_def x2_def)
  have r3: "hash_image (replicate 1040 0) (snd x2) 240 4294967156 = None"
    by (simp add: hash_image_def read_image_def)
  have run: "CalculateAuthenticodeHash low_directory_image example_ctx =
      raised low_directory_image (snd x2)"
    unfolding CalculateAuthenticodeHash_def Let_def low_directory_image_fields
      CheckSum_SIZE_def IMAGE_DATA_DIRECTORY_SIZE_def
    using ok by (simp add: r1 r2 r3 split_beta)
  have t: "trace (snd x2) =
      [HashData (ImagePtr 0) (replicate 152 0), HashData (ImagePtr 156) (replicate 76 0)]"
    "Hash (snd x2) = Hash example_ctx"
    by (simp_all add: x2_def x1_def BCryptHashData_fields example_ctx_fields)
  have c1: "fst (HashpGetExcludeRange low_directory_view)"
    by (simp add: low_directory_accepted)
  have c2: "length (ViewBase low_directory_image) = 1040"
    by (simp add: low_directory_image_fields)
  have c3: "VirtualAddress (SecurityDirectory (ExcludeData low_directory_image)) -
     (SecurityOffset (ExcludeData low_directory_image) + 8) = 0xFFFFFF74"
    by (simp add: low_directory_image_fields)
  have c4: "\<not> fst (CalculateAuthenticodeHash low_directory_image example_ctx)"
    "LastError (fst (snd (CalculateAuthenticodeHash low_directory_image example_ctx))) =
       IMAGE_VERIFY_EXCEPTION_IN_PROCESS"
    "trace (snd (snd (CalculateAuthenticodeHash low_directory_image example_ctx))) =
       [HashData (ImagePtr 0) (replicate 152 0), HashData (ImagePtr 156) (replicate 76 0)]"
    "FinishHash \<notin> set (trace (snd (snd (CalculateAuthenticodeHash low_directory_image
       example_ctx))))"
    "Hash (snd (snd (CalculateAuthenticodeHash low_directory_image example_ctx))) =
       Hash example_ctx"
    by (simp_all add: run raised_def t)
  show ?thesis
    by (intro conjI c1 c2 c3 c4 low_directory_image_def low_directory_image_fields(1)
        always_succeeds_example_ctx)
qed

text \<open>
  C1, amended. When the third span is well formed (\<open>securityOffset + 8 \<le> certEnd\<close>),
  the primitive fails on no call, \<open>checksumOffset + 4 \<le> securityOffset\<close> and the view is
  mapped up to \<open>certEnd\<close>, \<open>CalculateAuthenticodeHash\<close> returns \<open>TRUE\<close> after exactly
  these calls, in this order: the span \<open>[0, checksumOffset)\<close>, the span
  \<open>[checksumOffset + 4, securityOffset)\<close>, the span \<open>[securityOffset + 8, certEnd)\<close>
  where \<open>certEnd\<close> is the file size when the directory's \<open>VirtualAddress\<close> is zero and
  that \<open>VirtualAddress\<close> otherwise, the \<open>8 - consumed mod 8\<close> zero bytes when
  \<open>consumed mod 8\<close> is not zero, and the finalization; the digest is that of these bytes.
\<close>

theorem CalculateAuthenticodeHash_feeds_spans:
  assumes ok: "always_succeeds ctx"
    and cs_so: "unat (ChecksumOffset (ExcludeData v)) + 4 \<le> unat (SecurityOffset (ExcludeData v))"
    and so_end: "unat (SecurityOffset (ExcludeData v)) + 8 \<le> cert_end v"
    and mapped: "cert_end v \<le> length (ViewBase v)"
  shows "fst (CalculateAuthenticodeHash v ctx) \<and>
         fst (snd (CalculateAuthenticodeHash v ctx)) = v \<and>
         trace (snd (snd (CalculateAuthenticodeHash v ctx))) =
           trace ctx @ authenticode_feed v @ [FinishHash] \<and>
         Hash (snd (snd (CalculateAuthenticodeHash v ctx))) =
           HashAlg ctx (absorbed ctx @ fed_bytes (authenticode_feed v))"
proof -
  define img where "img = ViewBase v"
  define cs where "cs = ChecksumOffset (ExcludeData v)"
  define so where "so = SecurityOffset (ExcludeData v)"
  define va where "va = VirtualAddress (SecurityDirectory (ExcludeData v))"
  define E where "E = (if va = 0 then FileSize_LowPart v else va)"
  have E: "unat E = cert_end v" by (simp add: E_def cert_end_def va_def)
  have bE: "unat E < 2 ^ 32" using unsigned_less [of E] by simp
  have u1: "unat (cs + 4) = unat cs + 4"
    using cs_so so_end bE E by (simp add: unat_word_ariths cs_def so_def)
  have u2: "unat (so - (cs + 4)) = unat so - (unat cs + 4)"
    using cs_so u1 by (simp add: unat_sub word_le_nat_alt cs_def so_def)
  have u3: "unat (so + 8) = unat so + 8"
    using so_end bE E by (simp add: unat_word_ariths so_def)
  have u4: "unat (E - (so + 8)) = unat E - (unat so + 8)"
    using so_end u3 E by (simp add: unat_sub word_le_nat_alt so_def)
  define c3 where "c3 = E - (so + 8)"
  define sz where "sz = c3 mod 8"
  have usz: "unat sz = (unat E - (unat so + 8)) mod 8"
    by (simp add: sz_def c3_def unat_mod u4)
  have upad: "unat (8 - sz) = 8 - unat sz"
    using usz by (simp add: unat_sub word_le_nat_alt)
  define x1 where "x1 = BCryptHashData ctx (ImagePtr 0) (span img 0 (unat cs))"
  define x2 where "x2 = BCryptHashData (snd x1) (ImagePtr (unat cs + 4))
      (span img (unat cs + 4) (unat so))"
  define x3 where "x3 = BCryptHashData (snd x2) (ImagePtr (unat so + 8))
      (span img (unat so + 8) (unat E))"
  define x4 where "x4 = (if sz \<noteq> 0 then HashpAddPad (8 - sz) (snd x3) else (fst x3, snd x3))"
  define x5 where "x5 = BCryptFinishHash (snd x4)"
  have b: "unat cs + 4 \<le> unat so" "unat so + 8 \<le> unat E" "unat E \<le> length img"
    using cs_so so_end mapped by (simp_all add: E cs_def so_def img_def)
  have h1: "hash_image img ctx 0 (unat cs) = Some x1"
    using hash_image_in_bounds [of "unat cs" 0 img ctx] b
    by (simp add: x1_def span_def)
  have h2: "hash_image img (snd x1) (unat (cs + 4)) (unat (so - (cs + 4))) = Some x2"
    using hash_image_in_bounds [of "unat so - (unat cs + 4)" "unat cs + 4" img "snd x1"] b
    by (simp add: x2_def span_def u1 u2)
  have h3: "hash_image img (snd x2) (unat (so + 8)) (unat (E - (so + 8))) = Some x3"
    using hash_image_in_bounds [of "unat E - (unat so + 8)" "unat so + 8" img "snd x2"] b
    by (simp add: x3_def span_def u3 u4)
  have s1: "always_succeeds (snd x1)" "NT_SUCCESS (fst x1)"
    using ok by (simp_all add: x1_def BCryptHashData_success)
  have s2: "always_succeeds (snd x2)" "NT_SUCCESS (fst x2)"
    using s1 by (simp_all add: x2_def BCryptHashData_success)
  have s3: "always_succeeds (snd x3)" "NT_SUCCESS (fst x3)"
    using s2 by (simp_all add: x3_def BCryptHashData_success)
  have s4: "always_succeeds (snd x4)" "NT_SUCCESS (fst x4)"
    using s3 by (simp_all add: x4_def HashpAddPad_success)
  have s5: "NT_SUCCESS (fst x5)"
    using s4 by (simp add: x5_def BCryptFinishHash_fields always_succeeds_def)
  have c3eq: "(if va = 0 then FileSize_LowPart v - (so + 8) else va - (so + 8)) = c3"
    by (simp add: c3_def E_def)
  have run: "CalculateAuthenticodeHash v ctx = (NT_SUCCESS (fst x5), v, snd x5)"
    unfolding CalculateAuthenticodeHash_def Let_def
      img_def [symmetric] cs_def [symmetric] so_def [symmetric] va_def [symmetric]
      CheckSum_SIZE_def IMAGE_DATA_DIRECTORY_SIZE_def DEFAULT_ALIGN_BYTES_def
      c3eq sz_def [symmetric]
    using s1 s2 s3 s4
    by (simp add: h1 h2 h3 [folded c3_def] split_beta x4_def [symmetric] x5_def [symmetric])
  have feed: "authenticode_feed v =
      [HashData (ImagePtr 0) (span img 0 (unat cs)),
       HashData (ImagePtr (unat cs + 4)) (span img (unat cs + 4) (unat so)),
       HashData (ImagePtr (unat so + 8)) (span img (unat so + 8) (unat E))] @
      (if unat sz \<noteq> 0 then [HashData PadPtr (replicate (8 - unat sz) 0)] else [])"
    by (simp add: authenticode_feed_def Let_def img_def cs_def so_def E usz)
  have tr3: "trace (snd x3) = trace ctx @
      [HashData (ImagePtr 0) (span img 0 (unat cs)),
       HashData (ImagePtr (unat cs + 4)) (span img (unat cs + 4) (unat so)),
       HashData (ImagePtr (unat so + 8)) (span img (unat so + 8) (unat E))]"
    by (simp add: x3_def x2_def x1_def BCryptHashData_fields)
  have ab3: "absorbed (snd x3) = absorbed ctx @ span img 0 (unat cs) @
      span img (unat cs + 4) (unat so) @ span img (unat so + 8) (unat E)"
    using ok s1 s2 by (simp add: x3_def x2_def x1_def BCryptHashData_success)
  have alg3: "HashAlg (snd x3) = HashAlg ctx"
    by (simp add: x3_def x2_def x1_def BCryptHashData_fields)
  have szlt: "unat sz < 8" using usz by simp
  have tr4: "trace (snd x4) = trace ctx @ authenticode_feed v"
  proof (cases "sz = 0")
    case True
    then show ?thesis by (simp add: x4_def tr3 feed)
  next
    case False
    then have p: "0 < unat sz" by (simp add: unat_gt_0)
    then have "pad_chunks (8 - unat sz) = [HashData PadPtr (replicate (8 - unat sz) 0)]"
      using szlt by (simp add: pad_chunks_small)
    then show ?thesis
      using False p s3 by (simp add: x4_def HashpAddPad_success upad tr3 feed)
  qed
  have ab4: "absorbed (snd x4) = absorbed ctx @ fed_bytes (authenticode_feed v)"
  proof (cases "sz = 0")
    case True
    then show ?thesis by (simp add: x4_def ab3 feed fed_bytes_def)
  next
    case False
    then have p: "0 < unat sz" by (simp add: unat_gt_0)
    then show ?thesis
      using False s3 by (simp add: x4_def HashpAddPad_success upad ab3 feed fed_bytes_def)
  qed
  have alg4: "HashAlg (snd x4) = HashAlg ctx"
    using s3 by (simp add: x4_def HashpAddPad_success alg3)
  have "Hash (snd x5) = HashAlg ctx (absorbed ctx @ fed_bytes (authenticode_feed v))"
    using s4 by (simp add: x5_def BCryptFinishHash_fields always_succeeds_def alg4 ab4)
  moreover have "trace (snd x5) = trace ctx @ authenticode_feed v @ [FinishHash]"
    by (simp add: x5_def BCryptFinishHash_fields tr4)
  ultimately show ?thesis
    using s5 by (simp add: run)
qed

theorem CalculateAuthenticodeHash_feeds_spans_witness:
  "always_succeeds example_ctx \<and>
   cert_end signed_image_a = 21 \<and>
   fst (CalculateAuthenticodeHash signed_image_a example_ctx) \<and>
   trace (snd (snd (CalculateAuthenticodeHash signed_image_a example_ctx))) =
     [HashData (ImagePtr 0) [10, 11], HashData (ImagePtr 6) [12, 13],
      HashData (ImagePtr 16) [14, 15, 16, 17, 18], HashData PadPtr [0, 0, 0], FinishHash] \<and>
   Hash (snd (snd (CalculateAuthenticodeHash signed_image_a example_ctx))) =
     [10, 11, 12, 13, 14, 15, 16, 17, 18, 0, 0, 0]"
  using CalculateAuthenticodeHash_feeds_spans
    [OF always_succeeds_example_ctx signed_image_a_bounds]
  by (simp add: always_succeeds_example_ctx signed_image_a_cert_end signed_image_a_feed
      example_ctx_fields fed_bytes_def)

lemma read_image_cong:
  assumes "length img1 = length img2"
    and "\<And>i. off \<le> i \<Longrightarrow> i < off + cb \<Longrightarrow> i < length img1 \<Longrightarrow> img1 ! i = img2 ! i"
  shows "read_image img1 off cb = read_image img2 off cb"
proof (cases "cb \<noteq> 0 \<and> off + cb \<le> length img1")
  case True
  have "take cb (drop off img1) = take cb (drop off img2)"
  proof (rule nth_equalityI)
    show "length (take cb (drop off img1)) = length (take cb (drop off img2))"
      using assms(1) by simp
  next
    fix i assume "i < length (take cb (drop off img1))"
    then have i: "i < cb" "off + i < length img1" by auto
    then have "img1 ! (off + i) = img2 ! (off + i)" using assms(2) by simp
    then show "take cb (drop off img1) ! i = take cb (drop off img2) ! i"
      using i assms(1) by simp
  qed
  then show ?thesis using True assms(1) by (simp add: read_image_def)
next
  case False
  then show ?thesis using assms(1) by (auto simp: read_image_def)
qed

lemma CalculateAuthenticodeHash_cong:
  assumes ex: "ExcludeData v1 = ExcludeData v2"
    and fs: "FileSize_LowPart v1 = FileSize_LowPart v2"
    and r1: "read_image (ViewBase v1) 0 (unat (ChecksumOffset (ExcludeData v2))) =
         read_image (ViewBase v2) 0 (unat (ChecksumOffset (ExcludeData v2)))"
    and r2: "read_image (ViewBase v1) (unat (ChecksumOffset (ExcludeData v2) + 4))
           (unat (SecurityOffset (ExcludeData v2) - (ChecksumOffset (ExcludeData v2) + 4))) =
         read_image (ViewBase v2) (unat (ChecksumOffset (ExcludeData v2) + 4))
           (unat (SecurityOffset (ExcludeData v2) - (ChecksumOffset (ExcludeData v2) + 4)))"
    and r3: "read_image (ViewBase v1) (unat (SecurityOffset (ExcludeData v2) + 8))
           (unat (if VirtualAddress (SecurityDirectory (ExcludeData v2)) = 0
              then FileSize_LowPart v2 - (SecurityOffset (ExcludeData v2) + 8)
              else VirtualAddress (SecurityDirectory (ExcludeData v2)) -
                   (SecurityOffset (ExcludeData v2) + 8))) =
         read_image (ViewBase v2) (unat (SecurityOffset (ExcludeData v2) + 8))
           (unat (if VirtualAddress (SecurityDirectory (ExcludeData v2)) = 0
              then FileSize_LowPart v2 - (SecurityOffset (ExcludeData v2) + 8)
              else VirtualAddress (SecurityDirectory (ExcludeData v2)) -
                   (SecurityOffset (ExcludeData v2) + 8)))"
  shows "fst (CalculateAuthenticodeHash v1 ctx) = fst (CalculateAuthenticodeHash v2 ctx) \<and>
         snd (snd (CalculateAuthenticodeHash v1 ctx)) = snd (snd (CalculateAuthenticodeHash v2 ctx))"
proof -
  define c3 where "c3 = (if VirtualAddress (SecurityDirectory (ExcludeData v2)) = 0
              then FileSize_LowPart v2 - (SecurityOffset (ExcludeData v2) + 8)
              else VirtualAddress (SecurityDirectory (ExcludeData v2)) -
                   (SecurityOffset (ExcludeData v2) + 8))"
  define R1 where "R1 = read_image (ViewBase v2) 0 (unat (ChecksumOffset (ExcludeData v2)))"
  define R2 where "R2 = read_image (ViewBase v2) (unat (ChecksumOffset (ExcludeData v2) + 4))
           (unat (SecurityOffset (ExcludeData v2) - (ChecksumOffset (ExcludeData v2) + 4)))"
  define R3 where "R3 = read_image (ViewBase v2) (unat (SecurityOffset (ExcludeData v2) + 8))
           (unat c3)"
  note reads = r1 [folded R1_def] r2 [folded R2_def] r3 [folded c3_def, folded R3_def]
  note D = CalculateAuthenticodeHash_def Let_def hash_image_def CheckSum_SIZE_def
    IMAGE_DATA_DIRECTORY_SIZE_def ex fs c3_def [symmetric] reads
    R1_def [symmetric] R2_def [symmetric] R3_def [symmetric]
  show ?thesis
  proof (cases R1)
    case None
    show ?thesis unfolding D by (simp add: None raised_def)
  next
    case s1: (Some b1)
    show ?thesis
    proof (cases "NT_SUCCESS (fst (BCryptHashData ctx (ImagePtr 0) b1))")
      case False
      show ?thesis unfolding D using False by (simp add: s1 split_beta)
    next
      case t1: True
      show ?thesis
      proof (cases R2)
        case None
        show ?thesis unfolding D using t1 by (simp add: s1 None split_beta raised_def)
      next
        case s2: (Some b2)
        define x1 where "x1 = BCryptHashData ctx (ImagePtr 0) b1"
        show ?thesis
        proof (cases "NT_SUCCESS (fst (BCryptHashData (snd x1)
            (ImagePtr (unat (ChecksumOffset (ExcludeData v2) + 4))) b2))")
          case False
          show ?thesis unfolding D using t1 False by (simp add: s1 s2 split_beta x1_def)
        next
          case t2: True
          show ?thesis
          proof (cases R3)
            case None
            show ?thesis unfolding D using t1 t2
              by (simp add: s1 s2 None split_beta raised_def x1_def)
          next
            case s3: (Some b3)
            show ?thesis unfolding D using t1 t2
              by (simp add: s1 s2 s3 split_beta x1_def)
          qed
        qed
      qed
    qed
  qed
qed

lemma CalculateAuthenticodeHash_fault3:
  assumes "read_image (ViewBase v) (unat (SecurityOffset (ExcludeData v) + 8))
           (unat (if VirtualAddress (SecurityDirectory (ExcludeData v)) = 0
              then FileSize_LowPart v - (SecurityOffset (ExcludeData v) + 8)
              else VirtualAddress (SecurityDirectory (ExcludeData v)) -
                   (SecurityOffset (ExcludeData v) + 8))) = None"
  shows "\<not> fst (CalculateAuthenticodeHash v ctx) \<and>
         Hash (snd (snd (CalculateAuthenticodeHash v ctx))) = Hash ctx"
proof -
  define c3 where "c3 = (if VirtualAddress (SecurityDirectory (ExcludeData v)) = 0
              then FileSize_LowPart v - (SecurityOffset (ExcludeData v) + 8)
              else VirtualAddress (SecurityDirectory (ExcludeData v)) -
                   (SecurityOffset (ExcludeData v) + 8))"
  define R1 where "R1 = read_image (ViewBase v) 0 (unat (ChecksumOffset (ExcludeData v)))"
  define R2 where "R2 = read_image (ViewBase v) (unat (ChecksumOffset (ExcludeData v) + 4))
           (unat (SecurityOffset (ExcludeData v) - (ChecksumOffset (ExcludeData v) + 4)))"
  note r3 = assms [folded c3_def]
  note D = CalculateAuthenticodeHash_def Let_def hash_image_def CheckSum_SIZE_def
    IMAGE_DATA_DIRECTORY_SIZE_def c3_def [symmetric] r3 R1_def [symmetric] R2_def [symmetric]
  show ?thesis
  proof (cases R1)
    case None
    show ?thesis unfolding D by (simp add: None raised_def)
  next
    case s1: (Some b1)
    show ?thesis
    proof (cases "NT_SUCCESS (fst (BCryptHashData ctx (ImagePtr 0) b1))")
      case False
      show ?thesis unfolding D using False by (simp add: s1 split_beta BCryptHashData_fields)
    next
      case t1: True
      show ?thesis
      proof (cases R2)
        case None
        show ?thesis unfolding D using t1
          by (simp add: s1 None split_beta raised_def BCryptHashData_fields)
      next
        case s2: (Some b2)
        define x1 where "x1 = BCryptHashData ctx (ImagePtr 0) b1"
        have h1: "Hash (snd x1) = Hash ctx" by (simp add: x1_def BCryptHashData_fields)
        show ?thesis
        proof (cases "NT_SUCCESS (fst (BCryptHashData (snd x1)
            (ImagePtr (unat (ChecksumOffset (ExcludeData v) + 4))) b2))")
          case False
          show ?thesis unfolding D using t1 False h1
            by (simp add: s1 s2 split_beta x1_def BCryptHashData_fields)
        next
          case t2: True
          show ?thesis unfolding D using t1 t2 h1
            by (simp add: s1 s2 split_beta raised_def x1_def BCryptHashData_fields)
        qed
      qed
    qed
  qed
qed

lemma signed_images_agree: "agree_outside_excluded signed_image_a signed_image_b"
  unfolding agree_outside_excluded_def
proof (intro allI impI)
  fix i
  assume "i < length (ViewBase signed_image_a)" and "\<not> excluded signed_image_a i"
  then have "i \<in> {0, 1, 6, 7, 16, 17, 18, 19, 20}"
    by (simp add: excluded_def signed_image_a_def) arith
  then show "ViewBase signed_image_a ! i = ViewBase signed_image_b ! i"
    by (auto simp: signed_image_a_def signed_image_b_def)
qed

text \<open>
  C2. Two views of files of the same size, with the same exclusion descriptor, whose
  bytes agree outside the checksum field, the directory entry and the certificate blob
  \<open>[VirtualAddress, fileSize)\<close>, give the same result and the same digest. The descriptor
  satisfies the invariant of the data model (\<open>checksumOffset + 4 \<le> securityOffset\<close>,
  \<open>securityOffset + 8 \<le> fileSize\<close>) and each view is as long as the file.
\<close>

theorem CalculateAuthenticodeHash_signature_invariant:
  assumes ex: "ExcludeData v1 = ExcludeData v2"
    and fs: "FileSize_LowPart v1 = FileSize_LowPart v2"
    and len1: "length (ViewBase v1) = unat (FileSize_LowPart v1)"
    and len2: "length (ViewBase v2) = unat (FileSize_LowPart v2)"
    and cs_so: "unat (ChecksumOffset (ExcludeData v1)) + 4 \<le> unat (SecurityOffset (ExcludeData v1))"
    and so_fs: "unat (SecurityOffset (ExcludeData v1)) + 8 \<le> unat (FileSize_LowPart v1)"
    and agree: "agree_outside_excluded v1 v2"
  shows "fst (CalculateAuthenticodeHash v1 ctx) = fst (CalculateAuthenticodeHash v2 ctx) \<and>
         Hash (snd (snd (CalculateAuthenticodeHash v1 ctx))) =
         Hash (snd (snd (CalculateAuthenticodeHash v2 ctx)))"
proof -
  define cs where "cs = ChecksumOffset (ExcludeData v2)"
  define so where "so = SecurityOffset (ExcludeData v2)"
  define va where "va = VirtualAddress (SecurityDirectory (ExcludeData v2))"
  define F where "F = FileSize_LowPart v2"
  define c3 where "c3 = (if va = 0 then F - (so + 8) else va - (so + 8))"
  have len: "length (ViewBase v1) = length (ViewBase v2)" "length (ViewBase v2) = unat F"
    using len1 len2 fs by (simp_all add: F_def)
  have b: "unat cs + 4 \<le> unat so" "unat so + 8 \<le> unat F"
    using cs_so so_fs ex fs by (simp_all add: cs_def so_def F_def)
  have bF: "unat F < 2 ^ 32" using unsigned_less [of F] by simp
  have bva: "unat va < 2 ^ 32" using unsigned_less [of va] by simp
  have u1: "unat (cs + 4) = unat cs + 4"
    using b bF by (simp add: unat_word_ariths)
  have u2: "unat (so - (cs + 4)) = unat so - (unat cs + 4)"
    using b u1 by (simp add: unat_sub word_le_nat_alt)
  have u3: "unat (so + 8) = unat so + 8"
    using b bF by (simp add: unat_word_ariths)
  have same: "ViewBase v1 ! i = ViewBase v2 ! i"
    if "i < unat F" and "\<not> (unat cs \<le> i \<and> i < unat cs + 4)"
      and "\<not> (unat so \<le> i \<and> i < unat so + 8)"
      and "va = 0 \<or> i < unat va" for i
    using agree that len ex fs
    by (auto simp: agree_outside_excluded_def excluded_def cs_def so_def va_def F_def)
  show ?thesis
  proof (cases "va \<noteq> 0 \<and> unat va < unat so + 8")
    case True
    then have lt: "va < so + 8" by (simp add: word_less_nat_alt u3)
    have "unat (va - (so + 8)) = 2 ^ 32 + unat va - (unat so + 8)"
      using lt u3 bva b bF by (simp add: unat_sub_if' word_less_nat_alt)
    then have over: "unat (so + 8) + unat c3 > unat F" "unat c3 \<noteq> 0"
      using True b bF by (simp_all add: c3_def u3)
    have f: "read_image (ViewBase v) (unat (so + 8)) (unat c3) = None"
      if "length (ViewBase v) = unat F" for v :: file_view_info
      using that over by (simp add: read_image_def)
    have f1: "read_image (ViewBase v1) (unat (so + 8)) (unat c3) = None"
      by (rule f) (simp add: len)
    have f2: "read_image (ViewBase v2) (unat (so + 8)) (unat c3) = None"
      by (rule f) (simp add: len)
    note g1 = f1 [unfolded c3_def so_def va_def F_def, folded ex fs]
    note g2 = f2 [unfolded c3_def so_def va_def F_def]
    have "\<not> fst (CalculateAuthenticodeHash v1 ctx) \<and>
         Hash (snd (snd (CalculateAuthenticodeHash v1 ctx))) = Hash ctx"
      by (rule CalculateAuthenticodeHash_fault3 [OF g1])
    moreover have "\<not> fst (CalculateAuthenticodeHash v2 ctx) \<and>
         Hash (snd (snd (CalculateAuthenticodeHash v2 ctx))) = Hash ctx"
      by (rule CalculateAuthenticodeHash_fault3 [OF g2])
    ultimately show ?thesis by simp
  next
    case False
    then have va: "va = 0 \<or> unat so + 8 \<le> unat va" by auto
    have q1: "read_image (ViewBase v1) 0 (unat cs) = read_image (ViewBase v2) 0 (unat cs)"
      using len(1)
    proof (rule read_image_cong)
      fix i assume "i < 0 + unat cs" "i < length (ViewBase v1)"
      then show "ViewBase v1 ! i = ViewBase v2 ! i"
        using b va len by (intro same) auto
    qed
    have q2: "read_image (ViewBase v1) (unat (cs + 4)) (unat (so - (cs + 4))) =
        read_image (ViewBase v2) (unat (cs + 4)) (unat (so - (cs + 4)))"
      using len(1)
    proof (rule read_image_cong)
      fix i assume "unat (cs + 4) \<le> i" "i < unat (cs + 4) + unat (so - (cs + 4))"
        "i < length (ViewBase v1)"
      then show "ViewBase v1 ! i = ViewBase v2 ! i"
        using b va len u1 u2 by (intro same) auto
    qed
    have c3: "unat c3 = (if va = 0 then unat F else unat va) - (unat so + 8)"
      using va b u3 by (auto simp: c3_def unat_sub word_le_nat_alt)
    have q3: "read_image (ViewBase v1) (unat (so + 8)) (unat c3) =
        read_image (ViewBase v2) (unat (so + 8)) (unat c3)"
      using len(1)
    proof (rule read_image_cong)
      fix i assume "unat (so + 8) \<le> i" "i < unat (so + 8) + unat c3"
        "i < length (ViewBase v1)"
      then show "ViewBase v1 ! i = ViewBase v2 ! i"
        using b va len u3 c3 by (intro same) (auto split: if_splits)
    qed
    have "fst (CalculateAuthenticodeHash v1 ctx) = fst (CalculateAuthenticodeHash v2 ctx) \<and>
         snd (snd (CalculateAuthenticodeHash v1 ctx)) =
         snd (snd (CalculateAuthenticodeHash v2 ctx))"
      using ex fs q1 q2 q3
      unfolding c3_def cs_def so_def va_def F_def
      by (rule CalculateAuthenticodeHash_cong)
    then show ?thesis by simp
  qed
qed

theorem CalculateAuthenticodeHash_signature_invariant_witness:
  "agree_outside_excluded signed_image_a signed_image_b \<and>
   ViewBase signed_image_a \<noteq> ViewBase signed_image_b \<and>
   fst (CalculateAuthenticodeHash signed_image_b example_ctx) \<and>
   Hash (snd (snd (CalculateAuthenticodeHash signed_image_a example_ctx))) =
     [10, 11, 12, 13, 14, 15, 16, 17, 18, 0, 0, 0] \<and>
   Hash (snd (snd (CalculateAuthenticodeHash signed_image_b example_ctx))) =
     [10, 11, 12, 13, 14, 15, 16, 17, 18, 0, 0, 0]"
proof -
  have e: "ExcludeData signed_image_a = ExcludeData signed_image_b"
    "FileSize_LowPart signed_image_a = FileSize_LowPart signed_image_b"
    "length (ViewBase signed_image_a) = unat (FileSize_LowPart signed_image_a)"
    "length (ViewBase signed_image_b) = unat (FileSize_LowPart signed_image_b)"
    by (simp_all add: signed_image_a_def signed_image_b_def)
  have h: "unat (SecurityOffset (ExcludeData signed_image_a)) + 8
      \<le> unat (FileSize_LowPart signed_image_a)"
    by (simp add: signed_image_a_def)
  have d: "ViewBase signed_image_a \<noteq> ViewBase signed_image_b"
    by (simp add: signed_image_a_def signed_image_b_def)
  show ?thesis
    using CalculateAuthenticodeHash_signature_invariant
      [OF e signed_image_a_bounds(1) h signed_images_agree, of example_ctx]
      signed_image_a_run d signed_images_agree
    by simp
qed

section \<open>Facts about the first-page loop\<close>

lemma unat_of_nat_u32: "n < 2 ^ 32 \<Longrightarrow> unat (of_nat n :: u32) = n"
  by (simp add: unat_of_nat)

lemma read_offsets_append: "read_offsets (xs @ ys) = read_offsets xs @ read_offsets ys"
  by (induction xs rule: read_offsets.induct) simp_all

lemma read_offsets_pad_chunks: "read_offsets (pad_chunks n) = []"
proof -
  have "read_offsets (replicate k (HashData PadPtr bs)) = []" for k bs
    by (induction k) simp_all
  then show ?thesis by (simp add: pad_chunks_def read_offsets_append)
qed

lemma fed_bytes_single_bytes:
  "fed_bytes (map (\<lambda>off. HashData (ImagePtr off) [img ! off]) offs) = map (\<lambda>off. img ! off) offs"
  by (induction offs) (simp_all add: fed_bytes_def)

lemma first_page_loop_walk:
  assumes "always_succeeds ctx"
    and "unat PageSize + 8 \<le> 2 ^ 32"
    and "\<forall>off \<in> set (fst (page_walk (unat PageSize) (unat (ChecksumOffset (ExcludeData v)))
            (unat (SecurityOffset (ExcludeData v))) (unat soh) (unat offset))).
          off < length (ViewBase v)"
  shows "\<exists>ctx'. first_page_loop PageSize v soh ctx offset =
           Some (Stopped (of_nat (snd (page_walk (unat PageSize)
                   (unat (ChecksumOffset (ExcludeData v)))
                   (unat (SecurityOffset (ExcludeData v))) (unat soh) (unat offset)))), ctx') \<and>
         snd (page_walk (unat PageSize) (unat (ChecksumOffset (ExcludeData v)))
                   (unat (SecurityOffset (ExcludeData v))) (unat soh) (unat offset)) < 2 ^ 32 \<and>
         trace ctx' = trace ctx @
           map (\<lambda>off. HashData (ImagePtr off) [ViewBase v ! off])
             (fst (page_walk (unat PageSize) (unat (ChecksumOffset (ExcludeData v)))
                   (unat (SecurityOffset (ExcludeData v))) (unat soh) (unat offset))) \<and>
         absorbed ctx' = absorbed ctx @
           map (\<lambda>off. ViewBase v ! off)
             (fst (page_walk (unat PageSize) (unat (ChecksumOffset (ExcludeData v)))
                   (unat (SecurityOffset (ExcludeData v))) (unat soh) (unat offset))) \<and>
         always_succeeds ctx' \<and> HashAlg ctx' = HashAlg ctx \<and> Hash ctx' = Hash ctx"
  using assms
proof (induction "unat PageSize - unat offset" arbitrary: offset ctx rule: less_induct)
  case less
  define cs where "cs = ChecksumOffset (ExcludeData v)"
  define so where "so = SecurityOffset (ExcludeData v)"
  define W where "W = page_walk (unat PageSize) (unat cs) (unat so) (unat soh)"
  note ok = less.prems(1) and nowrap = less.prems(2)
    and mapped = less.prems(3) [folded cs_def so_def, folded W_def]
  show ?case
    unfolding cs_def [symmetric] so_def [symmetric] W_def [symmetric]
  proof (cases "offset < PageSize")
    case False
    then have w: "W (unat offset) = ([], unat offset)"
      unfolding W_def by (subst page_walk.simps) (simp add: word_less_nat_alt)
    have l: "first_page_loop PageSize v soh ctx offset = Some (Stopped offset, ctx)"
      using False by (subst first_page_loop.simps) simp
    show "\<exists>ctx'. first_page_loop PageSize v soh ctx offset =
           Some (Stopped (of_nat (snd (W (unat offset)))), ctx') \<and>
         snd (W (unat offset)) < 2 ^ 32 \<and>
         trace ctx' = trace ctx @
           map (\<lambda>off. HashData (ImagePtr off) [ViewBase v ! off]) (fst (W (unat offset))) \<and>
         absorbed ctx' = absorbed ctx @ map (\<lambda>off. ViewBase v ! off) (fst (W (unat offset))) \<and>
         always_succeeds ctx' \<and> HashAlg ctx' = HashAlg ctx \<and> Hash ctx' = Hash ctx"
      using ok unsigned_less [of offset] by (simp add: w l)
  next
    case True
    then have lt: "unat offset < unat PageSize" by (simp add: word_less_nat_alt)
    define offset1 where "offset1 =
       (if offset = cs then offset + 4 else if offset = so then offset + 8 else offset)"
    define off1 where "off1 =
       (if unat offset = unat cs then unat offset + 4
        else if unat offset = unat so then unat offset + 8 else unat offset)"
    have u4: "unat (offset + 4) = unat offset + 4" and u8: "unat (offset + 8) = unat offset + 8"
      using lt nowrap by (simp_all add: unat_word_ariths)
    have o1: "unat offset1 = off1"
      by (simp add: offset1_def off1_def u4 u8 word_unat_eq_iff)
    have ge: "unat offset \<le> off1" by (simp add: off1_def)
    have loop: "first_page_loop PageSize v soh ctx offset =
        (if offset1 \<ge> soh then Some (Stopped offset1, ctx)
         else (case hash_image (ViewBase v) ctx (unat offset1) 1 of
                 None \<Rightarrow> Some (Faulted, ctx)
               | Some (ntStatus, ctx1) \<Rightarrow>
                   if \<not> NT_SUCCESS ntStatus then Some (Returned, ctx1)
                   else first_page_loop PageSize v soh ctx1 (offset1 + 1)))"
      apply (subst first_page_loop.simps)
      unfolding Let_def CheckSum_SIZE_def IMAGE_DATA_DIRECTORY_SIZE_def
        cs_def [symmetric] so_def [symmetric] offset1_def [symmetric]
      using True by simp
    have walk: "W (unat offset) =
        (if off1 \<ge> unat soh then ([], off1)
         else (off1 # fst (W (off1 + 1)), snd (W (off1 + 1))))"
      unfolding W_def
      apply (subst page_walk.simps)
      unfolding Let_def off1_def [symmetric]
      using lt by (simp add: split_beta)
    show "\<exists>ctx'. first_page_loop PageSize v soh ctx offset =
           Some (Stopped (of_nat (snd (W (unat offset)))), ctx') \<and>
         snd (W (unat offset)) < 2 ^ 32 \<and>
         trace ctx' = trace ctx @
           map (\<lambda>off. HashData (ImagePtr off) [ViewBase v ! off]) (fst (W (unat offset))) \<and>
         absorbed ctx' = absorbed ctx @ map (\<lambda>off. ViewBase v ! off) (fst (W (unat offset))) \<and>
         always_succeeds ctx' \<and> HashAlg ctx' = HashAlg ctx \<and> Hash ctx' = Hash ctx"
    proof (cases "offset1 \<ge> soh")
      case stop: True
      then have "off1 \<ge> unat soh" using o1 by (simp add: word_le_nat_alt)
      then show ?thesis
        using ok stop o1 [symmetric] unsigned_less [of offset1] by (simp add: loop walk)
    next
      case go: False
      then have lt1: "off1 < unat soh" using o1 by (simp add: word_le_nat_alt not_le)
      have w: "W (unat offset) = (off1 # fst (W (off1 + 1)), snd (W (off1 + 1)))"
        using lt1 by (simp add: walk)
      have "off1 < length (ViewBase v)" using mapped by (simp add: w)
      then have h: "hash_image (ViewBase v) ctx (unat offset1) (Suc 0) =
          Some (BCryptHashData ctx (ImagePtr off1) [ViewBase v ! off1])"
        using hash_image_in_bounds [of 1 off1 "ViewBase v" ctx]
        by (simp add: o1 take_Suc_conv_app_nth hd_drop_conv_nth take_Suc)
      define ctx1 where "ctx1 = snd (BCryptHashData ctx (ImagePtr off1) [ViewBase v ! off1])"
      have ok1: "always_succeeds ctx1" using ok by (simp add: ctx1_def BCryptHashData_success)
      have bsoh: "unat soh < 2 ^ 32" using unsigned_less [of soh] by simp
      have u1: "unat (offset1 + 1) = off1 + 1"
        using lt1 bsoh o1 by (simp add: unat_word_ariths)
      have step: "first_page_loop PageSize v soh ctx offset =
          first_page_loop PageSize v soh ctx1 (offset1 + 1)"
        using go ok by (simp add: loop h ctx1_def BCryptHashData_success split_beta)
      have dec: "unat PageSize - unat (offset1 + 1) < unat PageSize - unat offset"
        using lt ge u1 by simp
      have m1': "\<forall>off \<in> set (fst (W (off1 + 1))). off < length (ViewBase v)"
        using mapped by (simp add: w)
      note m1 = m1' [unfolded W_def cs_def so_def, folded u1]
      from less.hyps [OF dec ok1 nowrap m1]
      obtain ctx' where IH:
        "first_page_loop PageSize v soh ctx1 (offset1 + 1) =
           Some (Stopped (of_nat (snd (W (off1 + 1)))), ctx')"
        "snd (W (off1 + 1)) < 2 ^ 32"
        "trace ctx' = trace ctx1 @
           map (\<lambda>off. HashData (ImagePtr off) [ViewBase v ! off]) (fst (W (off1 + 1)))"
        "absorbed ctx' = absorbed ctx1 @ map (\<lambda>off. ViewBase v ! off) (fst (W (off1 + 1)))"
        "always_succeeds ctx'" "HashAlg ctx' = HashAlg ctx1" "Hash ctx' = Hash ctx1"
        unfolding u1 W_def cs_def so_def by blast
      have a1: "absorbed ctx1 = absorbed ctx @ [ViewBase v ! off1]"
        "trace ctx1 = trace ctx @ [HashData (ImagePtr off1) [ViewBase v ! off1]]"
        "HashAlg ctx1 = HashAlg ctx" "Hash ctx1 = Hash ctx"
        using ok by (simp_all add: ctx1_def BCryptHashData_success(3) BCryptHashData_fields(1-4))
      show ?thesis
        using IH by (simp add: step w a1)
    qed
  qed
qed

lemma first_page_loop_reads:
  assumes "first_page_loop PageSize v soh ctx offset = Some r"
  shows "\<exists>new. trace (snd r) = trace ctx @ new \<and>
           (\<forall>off \<in> set (read_offsets new). off < unat soh)"
proof (rule first_page_loop.raw_induct
    [where P = "\<lambda>PageSize v soh ctx offset r. \<exists>new. trace (snd r) = trace ctx @ new \<and>
           (\<forall>off \<in> set (read_offsets new). off < unat soh)", OF _ assms])
  fix loop :: "u32 \<Rightarrow> file_view_info \<Rightarrow> u32 \<Rightarrow> cng_ctx \<Rightarrow> u32 \<Rightarrow> (loop_exit \<times> cng_ctx) option"
  fix PageSize soh offset :: u32 and v :: file_view_info and ctx :: cng_ctx
    and r :: "loop_exit \<times> cng_ctx"
  assume IH: "\<And>PageSize v soh ctx offset r. loop PageSize v soh ctx offset = Some r \<Longrightarrow>
      \<exists>new. trace (snd r) = trace ctx @ new \<and> (\<forall>off \<in> set (read_offsets new). off < unat soh)"
  assume body0: "(if offset < PageSize then
        (let offset1 =
               (if offset = ChecksumOffset (ExcludeData v) then offset + CheckSum_SIZE
                else if offset = SecurityOffset (ExcludeData v)
                     then offset + IMAGE_DATA_DIRECTORY_SIZE
                     else offset)
         in if offset1 \<ge> soh then Some (Stopped offset1, ctx)
            else
              (case hash_image (ViewBase v) ctx (unat offset1) 1 of
                 None \<Rightarrow> Some (Faulted, ctx)
               | Some (ntStatus, ctx1) \<Rightarrow>
                   if \<not> NT_SUCCESS ntStatus then Some (Returned, ctx1)
                   else loop PageSize v soh ctx1 (offset1 + 1)))
      else Some (Stopped offset, ctx)) = Some r"
  define offset1 where "offset1 =
     (if offset = ChecksumOffset (ExcludeData v) then offset + CheckSum_SIZE
      else if offset = SecurityOffset (ExcludeData v)
           then offset + IMAGE_DATA_DIRECTORY_SIZE else offset)"
  note body = body0 [unfolded Let_def, folded offset1_def]
  show "\<exists>new. trace (snd r) = trace ctx @ new \<and>
           (\<forall>off \<in> set (read_offsets new). off < unat soh)"
  proof (cases "offset < PageSize \<and> \<not> soh \<le> offset1")
    case False
    then have "snd r = ctx" using body by (auto split: if_splits)
    then show ?thesis by simp
  next
    case True
    then have lt: "unat offset1 < unat soh" by (simp add: word_le_nat_alt)
    show ?thesis
    proof (cases "read_image (ViewBase v) (unat offset1) 1")
      case None
      then have "snd r = ctx" using body True by (auto simp: hash_image_def)
      then show ?thesis by simp
    next
      case (Some bs)
      then have len: "length bs = 1"
        by (auto simp: read_image_def split: if_splits)
      define x where "x = BCryptHashData ctx (ImagePtr (unat offset1)) bs"
      have h: "hash_image (ViewBase v) ctx (unat offset1) (Suc 0) = Some x"
        using Some by (simp add: hash_image_def x_def)
      have tx: "trace (snd x) = trace ctx @ [HashData (ImagePtr (unat offset1)) bs]"
        by (simp add: x_def BCryptHashData_fields)
      show ?thesis
      proof (cases "NT_SUCCESS (fst x)")
        case False
        then have "snd r = snd x" using body True by (auto simp: h split_beta)
        then have "trace (snd r) = trace ctx @ [HashData (ImagePtr (unat offset1)) bs] \<and>
            (\<forall>off \<in> set (read_offsets [HashData (ImagePtr (unat offset1)) bs]).
               off < unat soh)"
          using lt by (simp add: tx len)
        then show ?thesis by blast
      next
        case ok: True
        then have "loop PageSize v soh (snd x) (offset1 + 1) = Some r"
          using body True by (auto simp: h split_beta)
        from IH [OF this] obtain new where
          "trace (snd r) = trace (snd x) @ new"
          "\<forall>off \<in> set (read_offsets new). off < unat soh"
          by blast
        then have "trace (snd r) = trace ctx @ (HashData (ImagePtr (unat offset1)) bs # new) \<and>
            (\<forall>off \<in> set (read_offsets (HashData (ImagePtr (unat offset1)) bs # new)).
               off < unat soh)"
          using lt by (simp add: tx len)
        then show ?thesis by blast
      qed
    qed
  qed
qed

lemma first_page_loop_returns:
  assumes "unat PageSize + 8 \<le> 2 ^ 32"
  shows "\<exists>r. first_page_loop PageSize v soh ctx offset = Some r"
  using assms
proof (induction "unat PageSize - unat offset" arbitrary: offset ctx rule: less_induct)
  case less
  note nowrap = less.prems
  define offset1 where "offset1 =
     (if offset = ChecksumOffset (ExcludeData v) then offset + CheckSum_SIZE
      else if offset = SecurityOffset (ExcludeData v)
           then offset + IMAGE_DATA_DIRECTORY_SIZE else offset)"
  have loop: "first_page_loop PageSize v soh ctx offset =
      (if offset < PageSize then
         (if offset1 \<ge> soh then Some (Stopped offset1, ctx)
          else (case hash_image (ViewBase v) ctx (unat offset1) 1 of
                  None \<Rightarrow> Some (Faulted, ctx)
                | Some (ntStatus, ctx1) \<Rightarrow>
                    if \<not> NT_SUCCESS ntStatus then Some (Returned, ctx1)
                    else first_page_loop PageSize v soh ctx1 (offset1 + 1)))
       else Some (Stopped offset, ctx))"
    apply (subst first_page_loop.simps)
    unfolding Let_def offset1_def [symmetric]
    by (rule refl)
  show ?case
  proof (cases "offset < PageSize \<and> \<not> soh \<le> offset1")
    case False
    then show ?thesis by (auto simp: loop)
  next
    case True
    then have lt: "unat offset < unat PageSize" and lt1: "unat offset1 < unat soh"
      by (simp_all add: word_less_nat_alt word_le_nat_alt)
    have u: "unat (offset + 4) = unat offset + 4" "unat (offset + 8) = unat offset + 8"
      using lt nowrap by (simp_all add: unat_word_ariths)
    have "offset1 = offset + 4 \<or> offset1 = offset + 8 \<or> offset1 = offset"
      by (simp add: offset1_def CheckSum_SIZE_def IMAGE_DATA_DIRECTORY_SIZE_def)
    then have ge: "unat offset \<le> unat offset1"
      using u by auto
    have "unat soh < 2 ^ 32" using unsigned_less [of soh] by simp
    then have "unat (offset1 + 1) = unat offset1 + 1"
      using lt1 by (simp add: unat_word_ariths)
    then have dec: "unat PageSize - unat (offset1 + 1) < unat PageSize - unat offset"
      using lt ge by simp
    have IH: "\<exists>r. first_page_loop PageSize v soh c (offset1 + 1) = Some r" for c
      using less.hyps [OF dec nowrap] .
    show ?thesis
    proof (cases "hash_image (ViewBase v) ctx (unat offset1) 1")
      case None
      then show ?thesis using True by (simp add: loop)
    next
      case (Some x)
      then show ?thesis using True IH [of "snd x"] by (simp add: loop split_beta)
    qed
  qed
qed

section \<open>Properties of CalculateFirstPageHash\<close>

text \<open>
  C4. When the primitive fails on no call, the skips cannot wrap the 32-bit offset
  (\<open>PageSize + 8 \<le> 2 ^ 32\<close>) and the bytes the walk hashes are mapped,
  \<open>CalculateFirstPageHash\<close> returns \<open>TRUE\<close> after exactly the calls of the specification's
  walk: from offset 0 and while the offset is below the page size, it skips 4 bytes at
  the checksum offset or else 8 bytes at the security offset, stops if the offset has
  reached \<open>sizeOfHeaders\<close>, and otherwise hashes the one byte at the offset and moves to
  the next; then it feeds \<open>pageSize - o\<close> zero bytes when the final offset \<open>o\<close> is below the
  page size, and finalizes.
\<close>

theorem CalculateFirstPageHash_walks_page:
  assumes ok: "always_succeeds ctx"
    and nowrap: "unat PageSize + 8 \<le> 2 ^ 32"
    and mapped: "\<forall>off \<in> set (fst (first_page_walk PageSize v)). off < length (ViewBase v)"
  shows "\<exists>ctx'. CalculateFirstPageHash PageSize v ctx = Some (True, v, ctx') \<and>
           trace ctx' = trace ctx @ first_page_feed PageSize v @ [FinishHash] \<and>
           Hash ctx' = HashAlg ctx (absorbed ctx @ fed_bytes (first_page_feed PageSize v))"
proof -
  define soh where "soh = HashpGetSizeOfHeaders (NtHeaders v)"
  define hashed where "hashed = fst (first_page_walk PageSize v)"
  define final where "final = snd (first_page_walk PageSize v)"
  have walk: "first_page_walk PageSize v = (hashed, final)"
    by (simp add: hashed_def final_def)
  obtain ctx1 where L:
    "first_page_loop PageSize v soh ctx 0 = Some (Stopped (of_nat final), ctx1)"
    "final < 2 ^ 32"
    "trace ctx1 = trace ctx @ map (\<lambda>off. HashData (ImagePtr off) [ViewBase v ! off]) hashed"
    "absorbed ctx1 = absorbed ctx @ map (\<lambda>off. ViewBase v ! off) hashed"
    "always_succeeds ctx1" "HashAlg ctx1 = HashAlg ctx"
    using first_page_loop_walk [of ctx PageSize v soh 0] ok nowrap mapped
    unfolding first_page_walk_def soh_def [symmetric] hashed_def final_def
    by auto
  define n where "n = (if final < unat PageSize then unat PageSize - final else 0)"
  define x2 where "x2 = (if (of_nat final :: u32) < PageSize
      then HashpAddPad (PageSize - of_nat final) ctx1 else (STATUS_SUCCESS, ctx1))"
  have uf: "unat (of_nat final :: u32) = final" using L(2) by (rule unat_of_nat_u32)
  have lt: "(of_nat final :: u32) < PageSize \<longleftrightarrow> final < unat PageSize"
    by (simp add: word_less_nat_alt uf)
  have un: "final < unat PageSize \<Longrightarrow> unat (PageSize - of_nat final) = unat PageSize - final"
    using uf by (simp add: unat_sub word_le_nat_alt)
  have feed: "first_page_feed PageSize v =
      map (\<lambda>off. HashData (ImagePtr off) [ViewBase v ! off]) hashed @ pad_chunks n"
    by (simp add: first_page_feed_def walk n_def pad_chunks_def)
  have P: "NT_SUCCESS (fst x2)" "always_succeeds (snd x2)" "HashAlg (snd x2) = HashAlg ctx"
    "trace (snd x2) = trace ctx @ first_page_feed PageSize v"
    "absorbed (snd x2) = absorbed ctx @ fed_bytes (first_page_feed PageSize v)"
  proof -
    have "NT_SUCCESS STATUS_SUCCESS" by (simp add: NT_SUCCESS_def STATUS_SUCCESS_def)
    then show "NT_SUCCESS (fst x2)"
      using L(5) by (simp add: x2_def HashpAddPad_success)
    show "always_succeeds (snd x2)" using L(5) by (simp add: x2_def HashpAddPad_success)
    show "HashAlg (snd x2) = HashAlg ctx" using L(5,6) by (simp add: x2_def HashpAddPad_success)
    show "trace (snd x2) = trace ctx @ first_page_feed PageSize v"
      using L(5) by (simp add: x2_def HashpAddPad_success lt un feed n_def L(3) pad_chunks_def)
    show "absorbed (snd x2) = absorbed ctx @ fed_bytes (first_page_feed PageSize v)"
      using L(5)
      by (simp add: x2_def HashpAddPad_success lt un feed n_def L(4) fed_bytes_append
          fed_bytes_single_bytes fed_bytes_pad_chunks)
  qed
  have run: "CalculateFirstPageHash PageSize v ctx =
      Some (NT_SUCCESS (fst (BCryptFinishHash (snd x2))), v, snd (BCryptFinishHash (snd x2)))"
    unfolding CalculateFirstPageHash_def Let_def soh_def [symmetric]
    using P(1) by (simp add: L(1) split_beta x2_def [symmetric])
  have "NT_SUCCESS (fst (BCryptFinishHash (snd x2)))"
    "Hash (snd (BCryptFinishHash (snd x2))) =
       HashAlg ctx (absorbed ctx @ fed_bytes (first_page_feed PageSize v))"
    "trace (snd (BCryptFinishHash (snd x2))) = trace ctx @ first_page_feed PageSize v @ [FinishHash]"
    using P(2) by (simp_all add: BCryptFinishHash_fields always_succeeds_def P(3-5))
  then show ?thesis by (simp add: run)
qed

theorem CalculateFirstPageHash_walks_page_witness:
  "first_page_walk 32 page_image = ([0, 1, 6, 7], 16) \<and>
   (\<exists>ctx'. CalculateFirstPageHash 32 page_image example_ctx = Some (True, page_image, ctx') \<and>
      trace ctx' =
        [HashData (ImagePtr 0) [10], HashData (ImagePtr 1) [11], HashData (ImagePtr 6) [12],
         HashData (ImagePtr 7) [13], HashData PadPtr [0, 0, 0, 0, 0, 0, 0, 0],
         HashData PadPtr [0, 0, 0, 0, 0, 0, 0, 0], FinishHash] \<and>
      Hash ctx' = [10, 11, 12, 13, 0, 0, 0, 0, 0, 0, 0, 0, 0, 0, 0, 0, 0, 0, 0, 0])"
proof -
  have soh: "HashpGetSizeOfHeaders (NtHeaders page_image) = 12"
    by (simp add: HashpGetSizeOfHeaders_def page_image_def example_headers_def
        IMAGE_NT_OPTIONAL_HDR64_MAGIC_def)
  have w0: "page_walk 32 2 8 12 0 = ([0, 1, 6, 7], 16)" by code_simp
  have walk: "first_page_walk 32 page_image = ([0, 1, 6, 7], 16)"
    unfolding first_page_walk_def soh
    by (simp add: page_image_def signed_image_a_def w0)
  have p: "pad_chunks 16 =
     [HashData PadPtr [0, 0, 0, 0, 0, 0, 0, 0], HashData PadPtr [0, 0, 0, 0, 0, 0, 0, 0]]"
    by code_simp
  have feed: "first_page_feed 32 page_image =
      [HashData (ImagePtr 0) [10], HashData (ImagePtr 1) [11], HashData (ImagePtr 6) [12],
       HashData (ImagePtr 7) [13], HashData PadPtr [0, 0, 0, 0, 0, 0, 0, 0],
       HashData PadPtr [0, 0, 0, 0, 0, 0, 0, 0]]"
    unfolding first_page_feed_def walk
    by (simp add: p) (simp add: page_image_def signed_image_a_def)
  have h: "unat (32 :: u32) + 8 \<le> 2 ^ 32"
    "\<forall>off \<in> set (fst (first_page_walk 32 page_image)). off < length (ViewBase page_image)"
    by (simp_all add: walk) (simp add: page_image_def signed_image_a_def)
  have ctx: "trace example_ctx = []" "absorbed example_ctx = []"
    "HashAlg example_ctx = (\<lambda>bs. bs)"
    by (simp_all add: example_ctx_def)
  show ?thesis
    using CalculateFirstPageHash_walks_page [OF always_succeeds_example_ctx h]
    by (simp add: walk feed ctx fed_bytes_def)
qed

text \<open>
  C5. Whatever \<open>CalculateFirstPageHash\<close> returns, every image offset read by the calls it
  made is below \<open>sizeOfHeaders\<close>; and it does return when the skips cannot wrap the
  32-bit offset.
\<close>

theorem CalculateFirstPageHash_reads_only_headers:
  "(\<forall>r. CalculateFirstPageHash PageSize v ctx = Some r \<longrightarrow>
      (\<exists>new. trace (snd (snd r)) = trace ctx @ new \<and>
         (\<forall>off \<in> set (read_offsets new).
            off < unat (HashpGetSizeOfHeaders (NtHeaders v))))) \<and>
   (unat PageSize + 8 \<le> 2 ^ 32 \<longrightarrow> (\<exists>r. CalculateFirstPageHash PageSize v ctx = Some r))"
proof (intro conjI allI impI)
  fix r
  assume run: "CalculateFirstPageHash PageSize v ctx = Some r"
  define soh where "soh = HashpGetSizeOfHeaders (NtHeaders v)"
  obtain ex ctx1 where loop: "first_page_loop PageSize v soh ctx 0 = Some (ex, ctx1)"
    using run unfolding CalculateFirstPageHash_def Let_def soh_def [symmetric]
    by (cases "first_page_loop PageSize v soh ctx 0") auto
  obtain new1 where n1: "trace ctx1 = trace ctx @ new1"
    "\<forall>off \<in> set (read_offsets new1). off < unat soh"
    using first_page_loop_reads [OF loop] by auto
  note D = run [unfolded CalculateFirstPageHash_def Let_def, folded soh_def, unfolded loop]
  have "\<exists>new2. trace (snd (snd r)) = trace ctx1 @ new2 \<and> read_offsets new2 = []"
  proof (cases ex)
    case Faulted
    then have "snd (snd r) = ctx1" using D by (auto simp: raised_def)
    then show ?thesis by simp
  next
    case Returned
    then have "snd (snd r) = ctx1" using D by auto
    then show ?thesis by simp
  next
    case (Stopped offset)
    define x2 where "x2 = (if offset < PageSize
      then HashpAddPad (PageSize - offset) ctx1 else (STATUS_SUCCESS, ctx1))"
    define k where "k = (if offset < PageSize then unat (PageSize - offset) else 0)"
    have t2: "trace (snd x2) = trace ctx1 @ pad_chunks k"
      using HashpAddPad_result [of "PageSize - offset" ctx1]
      by (simp add: x2_def k_def pad_chunks_def)
    have "snd (snd r) = snd x2 \<or> snd (snd r) = snd (BCryptFinishHash (snd x2))"
      using D Stopped by (auto simp: split_beta x2_def [symmetric] split: if_splits)
    then have "trace (snd (snd r)) = trace ctx1 @ pad_chunks k \<or>
        trace (snd (snd r)) = trace ctx1 @ pad_chunks k @ [FinishHash]"
      by (auto simp: t2 BCryptFinishHash_fields)
    moreover have "read_offsets (pad_chunks k) = []"
      "read_offsets (pad_chunks k @ [FinishHash]) = []"
      by (simp_all add: read_offsets_append read_offsets_pad_chunks)
    ultimately show ?thesis by blast
  qed
  then obtain new2 where "trace (snd (snd r)) = trace ctx1 @ new2" "read_offsets new2 = []"
    by blast
  then have "trace (snd (snd r)) = trace ctx @ (new1 @ new2) \<and>
      (\<forall>off \<in> set (read_offsets (new1 @ new2)). off < unat soh)"
    using n1 by (simp add: read_offsets_append)
  then show "\<exists>new. trace (snd (snd r)) = trace ctx @ new \<and>
      (\<forall>off \<in> set (read_offsets new). off < unat soh)"
    by blast
next
  assume "unat PageSize + 8 \<le> 2 ^ 32"
  then obtain x where "first_page_loop PageSize v (HashpGetSizeOfHeaders (NtHeaders v)) ctx 0 = Some x"
    using first_page_loop_returns by blast
  then show "\<exists>r. CalculateFirstPageHash PageSize v ctx = Some r"
    by (cases x; cases "fst x")
      (auto simp: CalculateFirstPageHash_def Let_def split_beta raised_def)
qed

theorem CalculateFirstPageHash_reads_only_headers_witness:
  "unat (32 :: u32) + 8 \<le> 2 ^ 32 \<and>
   HashpGetSizeOfHeaders (NtHeaders page_image) = 12 \<and>
   (\<exists>r new. CalculateFirstPageHash 32 page_image example_ctx = Some r \<and>
      trace (snd (snd r)) = trace example_ctx @ new \<and>
      read_offsets new = [0, 1, 6, 7] \<and>
      (\<forall>off \<in> set (read_offsets new). off < 12))"
proof -
  have soh: "HashpGetSizeOfHeaders (NtHeaders page_image) = 12"
    by (simp add: HashpGetSizeOfHeaders_def page_image_def example_headers_def
        IMAGE_NT_OPTIONAL_HDR64_MAGIC_def)
  have h: "unat (32 :: u32) + 8 \<le> 2 ^ 32" by simp
  from CalculateFirstPageHash_reads_only_headers [of 32 page_image example_ctx] h
  obtain r where r: "CalculateFirstPageHash 32 page_image example_ctx = Some r"
    by blast
  with CalculateFirstPageHash_reads_only_headers [of 32 page_image example_ctx]
  obtain new where new: "trace (snd (snd r)) = trace example_ctx @ new"
    "\<forall>off \<in> set (read_offsets new). off < 12"
    unfolding soh by auto
  have "trace (snd (snd r)) =
     [HashData (ImagePtr 0) [10], HashData (ImagePtr 1) [11], HashData (ImagePtr 6) [12],
      HashData (ImagePtr 7) [13], HashData PadPtr [0, 0, 0, 0, 0, 0, 0, 0],
      HashData PadPtr [0, 0, 0, 0, 0, 0, 0, 0], FinishHash]"
    using page_image_run r by simp
  then have "read_offsets new = [0, 1, 6, 7]"
    using new(1) by (simp add: example_ctx_fields)
  then show ?thesis using r new h soh by blast
qed

text \<open>
  C10. For an optional header magic that is neither the 32-bit nor the 64-bit one,
  \<open>HashpGetSizeOfHeaders\<close> is 0, and \<open>CalculateFirstPageHash\<close>, when the primitive fails
  on no call, returns \<open>TRUE\<close> having read no byte of the image: the loop stops at offset
  0, or at 4 or 8 when the checksum or security offset is 0, and the calls are the zero
  padding from there up to the page size, then the finalization.
\<close>

theorem unrecognized_magic_first_page:
  assumes "Magic (NtHeaders v) \<noteq> IMAGE_NT_OPTIONAL_HDR64_MAGIC"
    and "Magic (NtHeaders v) \<noteq> IMAGE_NT_OPTIONAL_HDR32_MAGIC"
  shows "HashpGetSizeOfHeaders (NtHeaders v) = 0 \<and>
    (always_succeeds ctx \<longrightarrow>
      (let stop = (if PageSize = 0 then 0
                   else if ChecksumOffset (ExcludeData v) = 0 then 4
                   else if SecurityOffset (ExcludeData v) = 0 then 8 else 0);
           padding = (if stop < unat PageSize then unat PageSize - stop else 0)
       in \<exists>ctx'. CalculateFirstPageHash PageSize v ctx = Some (True, v, ctx') \<and>
            trace ctx' = trace ctx @ pad_chunks padding @ [FinishHash] \<and>
            read_offsets (pad_chunks padding @ [FinishHash]) = [] \<and>
            Hash ctx' = HashAlg ctx (absorbed ctx @ replicate padding 0)))"
proof (intro conjI impI)
  show soh: "HashpGetSizeOfHeaders (NtHeaders v) = 0"
    using assms by (simp add: HashpGetSizeOfHeaders_def)
  assume ok: "always_succeeds ctx"
  define offset1 :: u32 where "offset1 =
     (if 0 = ChecksumOffset (ExcludeData v) then 0 + CheckSum_SIZE
      else if 0 = SecurityOffset (ExcludeData v) then 0 + IMAGE_DATA_DIRECTORY_SIZE else 0)"
  define stopped :: u32 where "stopped = (if 0 < PageSize then offset1 else 0)"
  have loop: "first_page_loop PageSize v 0 ctx 0 = Some (Stopped stopped, ctx)"
    apply (subst first_page_loop.simps)
    unfolding Let_def offset1_def [symmetric]
    by (simp add: stopped_def)
  define stop :: nat where "stop = (if PageSize = 0 then 0
                   else if ChecksumOffset (ExcludeData v) = 0 then 4
                   else if SecurityOffset (ExcludeData v) = 0 then 8 else 0)"
  define padding where "padding = (if stop < unat PageSize then unat PageSize - stop else 0)"
  have us: "unat stopped = stop"
    by (auto simp: stopped_def offset1_def stop_def CheckSum_SIZE_def
        IMAGE_DATA_DIRECTORY_SIZE_def word_gt_0)
  have lt: "stopped < PageSize \<longleftrightarrow> stop < unat PageSize"
    by (simp add: word_less_nat_alt us)
  have un: "stop < unat PageSize \<Longrightarrow> unat (PageSize - stopped) = unat PageSize - stop"
    using us by (simp add: unat_sub word_le_nat_alt)
  define x2 where "x2 = (if stopped < PageSize
      then HashpAddPad (PageSize - stopped) ctx else (STATUS_SUCCESS, ctx))"
  have s0: "NT_SUCCESS STATUS_SUCCESS" by (simp add: NT_SUCCESS_def STATUS_SUCCESS_def)
  have P: "NT_SUCCESS (fst x2)" "always_succeeds (snd x2)" "HashAlg (snd x2) = HashAlg ctx"
    "trace (snd x2) = trace ctx @ pad_chunks padding"
    "absorbed (snd x2) = absorbed ctx @ replicate padding 0"
    using ok s0
    by (simp_all add: x2_def HashpAddPad_success lt un padding_def pad_chunks_def)
  have run: "CalculateFirstPageHash PageSize v ctx =
      Some (NT_SUCCESS (fst (BCryptFinishHash (snd x2))), v, snd (BCryptFinishHash (snd x2)))"
    unfolding CalculateFirstPageHash_def Let_def soh
    using P(1) by (simp add: loop split_beta x2_def [symmetric])
  have F: "NT_SUCCESS (fst (BCryptFinishHash (snd x2)))"
    "Hash (snd (BCryptFinishHash (snd x2))) = HashAlg ctx (absorbed ctx @ replicate padding 0)"
    "trace (snd (BCryptFinishHash (snd x2))) = trace ctx @ pad_chunks padding @ [FinishHash]"
    using P(2) by (simp_all add: BCryptFinishHash_fields always_succeeds_def P(3-5))
  have "read_offsets (pad_chunks padding @ [FinishHash]) = []"
    by (simp add: read_offsets_append read_offsets_pad_chunks)
  then show "let stop = (if PageSize = 0 then 0
                   else if ChecksumOffset (ExcludeData v) = 0 then 4
                   else if SecurityOffset (ExcludeData v) = 0 then 8 else 0);
           padding = (if stop < unat PageSize then unat PageSize - stop else 0)
       in \<exists>ctx'. CalculateFirstPageHash PageSize v ctx = Some (True, v, ctx') \<and>
            trace ctx' = trace ctx @ pad_chunks padding @ [FinishHash] \<and>
            read_offsets (pad_chunks padding @ [FinishHash]) = [] \<and>
            Hash ctx' = HashAlg ctx (absorbed ctx @ replicate padding 0)"
    unfolding Let_def stop_def [symmetric] padding_def [symmetric]
    using F by (simp add: run)
qed

theorem unrecognized_magic_first_page_witness:
  "Magic (NtHeaders unsupported_image) \<noteq> IMAGE_NT_OPTIONAL_HDR64_MAGIC \<and>
   Magic (NtHeaders unsupported_image) \<noteq> IMAGE_NT_OPTIONAL_HDR32_MAGIC \<and>
   HashpGetSizeOfHeaders (NtHeaders unsupported_image) = 0 \<and>
   (\<exists>ctx'. CalculateFirstPageHash 16 unsupported_image example_ctx =
        Some (True, unsupported_image, ctx') \<and>
      trace ctx' = [HashData PadPtr [0, 0, 0, 0, 0, 0, 0, 0], HashData PadPtr [0, 0, 0, 0],
                    FinishHash] \<and>
      Hash ctx' = [0, 0, 0, 0, 0, 0, 0, 0, 0, 0, 0, 0])"
proof -
  have m: "Magic (NtHeaders unsupported_image) \<noteq> IMAGE_NT_OPTIONAL_HDR64_MAGIC"
    "Magic (NtHeaders unsupported_image) \<noteq> IMAGE_NT_OPTIONAL_HDR32_MAGIC"
    by (simp_all add: unsupported_image_def example_headers_def
        IMAGE_NT_OPTIONAL_HDR64_MAGIC_def IMAGE_NT_OPTIONAL_HDR32_MAGIC_def)
  have e: "ChecksumOffset (ExcludeData unsupported_image) = 0"
    by (simp add: unsupported_image_def unsigned_view_def no_exclude_data_def)
  have p: "pad_chunks 12 = [HashData PadPtr [0, 0, 0, 0, 0, 0, 0, 0], HashData PadPtr [0, 0, 0, 0]]"
    by code_simp
  have r: "replicate 12 (0 :: u8) = [0, 0, 0, 0, 0, 0, 0, 0, 0, 0, 0, 0]"
    by code_simp
  have ctx: "trace example_ctx = []" "absorbed example_ctx = []"
    "HashAlg example_ctx = (\<lambda>bs. bs)"
    by (simp_all add: example_ctx_def)
  show ?thesis
    using unrecognized_magic_first_page [OF m, of example_ctx 16] m
      always_succeeds_example_ctx
    by (simp add: e p r ctx)
qed

end
